theory Spec2Isabelle
  imports Complex_Main "HOL-Library.Log_Nat"
begin

section \<open>The deck editor of deckmain.tsx: grid, tetrominoes, placement\<close>

text \<open>
  The component keeps two pieces of state that matter here: \<open>contributionGrid\<close> (an array of
  rows of cells, initially empty) and \<open>placedTetrominos\<close> (an array of placed pieces). Every
  handler is modelled as a function from the old state to the new one. JavaScript numbers
  are modelled as \<open>int\<close> (grid coordinates, counts, ids, angles) and as \<open>rat\<close> where the
  source uses halves (the pivots). The sums and differences the source forms with a drop
  position, an anchor or a rotation are rounded as IEEE doubles round them (\<open>js_add\<close>,
  \<open>js_sub\<close> below); levels and scores are sums of a few small integers and are kept
  exact.
\<close>

subsection \<open>Constants\<close>

datatype tetromino_type = TI | TJ | TL | TO | TS | TT | TZ

fun TETROMINO_SHAPES :: "tetromino_type \<Rightarrow> (int \<times> int) list" where
  "TETROMINO_SHAPES TI = [(0, 0), (1, 0), (2, 0), (3, 0)]"
| "TETROMINO_SHAPES TJ = [(0, 0), (0, 1), (1, 1), (2, 1)]"
| "TETROMINO_SHAPES TL = [(2, 0), (0, 1), (1, 1), (2, 1)]"
| "TETROMINO_SHAPES TO = [(0, 0), (1, 0), (0, 1), (1, 1)]"
| "TETROMINO_SHAPES TS = [(1, 0), (2, 0), (0, 1), (1, 1)]"
| "TETROMINO_SHAPES TT = [(1, 0), (0, 1), (1, 1), (2, 1)]"
| "TETROMINO_SHAPES TZ = [(0, 0), (1, 0), (1, 1), (2, 1)]"

fun TETROMINO_PIVOTS :: "tetromino_type \<Rightarrow> rat \<times> rat" where
  "TETROMINO_PIVOTS TI = (3 / 2, 1 / 2)"
| "TETROMINO_PIVOTS TJ = (1, 1)"
| "TETROMINO_PIVOTS TL = (1, 1)"
| "TETROMINO_PIVOTS TO = (1 / 2, 1 / 2)"
| "TETROMINO_PIVOTS TS = (1, 1)"
| "TETROMINO_PIVOTS TT = (1, 1)"
| "TETROMINO_PIVOTS TZ = (1, 1)"

definition GRID_WIDTH :: int where
  "GRID_WIDTH = 8"

definition GRID_HEIGHT :: int where
  "GRID_HEIGHT = 7"

subsection \<open>Helper functions\<close>

definition getContributionLevel :: "int \<Rightarrow> int" where
  "getContributionLevel count =
     (if count > 20 then 5
      else if count > 10 then 4
      else if count > 5 then 3
      else if count > 0 then 2
      else if count \<ge> 0 then 1
      else 0)"

definition getScoreFromContributionLevel :: "int \<Rightarrow> int" where
  "getScoreFromContributionLevel level = level * 100"

text \<open>\<open>Math.round\<close> rounds halves upwards: it is \<open>floor (v + 1/2)\<close>.\<close>

definition Math_round :: "rat \<Rightarrow> int" where
  "Math_round v = \<lfloor>v + 1 / 2\<rfloor>"

text \<open>
  \<open>Math.round(Math.cos(rad))\<close> and \<open>Math.round(Math.sin(rad))\<close> for an angle that is a
  multiple of 90 degrees, the only angles the component produces (a rotation starts at 0
  and is advanced by \<open>(rotation + 90) % 360\<close>). The floating-point cosine of 90 or 270
  degrees is within \<open>2e-16\<close> of zero and rounds to zero (possibly \<open>-0\<close>, which compares
  and adds like \<open>0\<close>).
\<close>

definition round_cos :: "int \<Rightarrow> int" where
  "round_cos angle =
     (if angle mod 360 = 0 then 1 else if angle mod 360 = 180 then - 1 else 0)"

definition round_sin :: "int \<Rightarrow> int" where
  "round_sin angle =
     (if angle mod 360 = 90 then 1 else if angle mod 360 = 270 then - 1 else 0)"

definition rotateShape :: "(int \<times> int) list \<Rightarrow> rat \<times> rat \<Rightarrow> int \<Rightarrow> (int \<times> int) list" where
  "rotateShape shape pivot angle =
     (let cos = round_cos angle; sin = round_sin angle; px = fst pivot; py = snd pivot
      in map (\<lambda>(x, y).
           let translatedX = of_int x - px;
               translatedY = of_int y - py;
               rotatedX = translatedX * of_int cos - translatedY * of_int sin;
               rotatedY = translatedX * of_int sin + translatedY * of_int cos
           in (Math_round (rotatedX + px), Math_round (rotatedY + py))) shape)"

text \<open>The JavaScript remainder \<open>a % b\<close> takes the sign of the dividend.\<close>

definition js_rem :: "int \<Rightarrow> int \<Rightarrow> int" where
  "js_rem a b = sgn a * (\<bar>a\<bar> mod \<bar>b\<bar>)"

text \<open>
  The double nearest to an integer. Every integer up to \<open>2^53\<close> in magnitude is a double;
  a larger one of \<open>n\<close> bits is rounded to a multiple of \<open>2^(n - 53)\<close>, the nearer one,
  and the one with the even multiplier when it lies halfway. The sum or difference of two
  integer-valued doubles is the double nearest to the exact result. (Magnitudes from
  \<open>2^1024\<close> on, where a double overflows, do not arise: \<open>handleDrop\<close> accepts finite
  positions only, and adding a few units to a finite double never overflows.)
\<close>

definition to_double :: "int \<Rightarrow> int" where
  "to_double v =
     (if \<bar>v\<bar> \<le> 2 ^ 53 then v
      else (let q = 2 ^ nat (bitlen \<bar>v\<bar> - 53);
                m = \<bar>v\<bar> div q;
                r = \<bar>v\<bar> mod q;
                m' = (if 2 * r > q \<or> (2 * r = q \<and> odd m) then m + 1 else m)
            in sgn v * (m' * q)))"

definition js_add :: "int \<Rightarrow> int \<Rightarrow> int" where
  "js_add a b = to_double (a + b)"

definition js_sub :: "int \<Rightarrow> int \<Rightarrow> int" where
  "js_sub a b = to_double (a - b)"

subsection \<open>Cells, blocks and pieces\<close>

record cell =
  count :: int
  level :: int
  date :: "string option"

type_synonym grid = "cell list list"

record block =
  x_b :: int
  y_b :: int
  level_b :: int
  score :: int
  colorIndex :: int

text \<open>
  What \<open>calculateTetrominoDetails\<close> returns; a placed piece is these fields together with
  \<open>id\<close>, \<open>type\<close>, \<open>x\<close>, \<open>y\<close> and \<open>rotation\<close> (the object spread \<open>...details\<close>).
\<close>

record details =
  absolutePositions :: "(int \<times> int) list"
  scorePotential :: int
  blockDetails :: "block list"

record tetromino = details +
  id_t :: int
  type_t :: tetromino_type
  x_t :: int
  y_t :: int
  rotation :: int

text \<open>The object literal \<open>{ id, type, x, y, rotation, ...details }\<close>.\<close>

definition with_details :: "details \<Rightarrow> int \<Rightarrow> tetromino_type \<Rightarrow> int \<Rightarrow> int \<Rightarrow> int \<Rightarrow> tetromino" where
  "with_details d i ty ax ay rot =
     \<lparr>absolutePositions = absolutePositions d, scorePotential = scorePotential d,
      blockDetails = blockDetails d,
      id_t = i, type_t = ty, x_t = ax, y_t = ay, rotation = rot\<rparr>"

subsection \<open>Collision check\<close>

text \<open>
  The inner loop of \<open>checkCollision\<close> over the placed pieces, for one cell. The second
  argument is the id of \<open>currentTetromino\<close>: \<open>None\<close> stands for the \<open>null\<close> id of a new
  piece, which no placed piece equals.
\<close>

fun overlapsPlaced :: "int \<Rightarrow> int \<Rightarrow> int option \<Rightarrow> tetromino list \<Rightarrow> bool" where
  "overlapsPlaced x y cur [] = False"
| "overlapsPlaced x y cur (placed # rest) =
     (if cur = Some (id_t placed) then overlapsPlaced x y cur rest
      else if list_ex (\<lambda>(px, py). x = px \<and> y = py) (absolutePositions placed) then True
      else overlapsPlaced x y cur rest)"

fun checkCollision :: "(int \<times> int) list \<Rightarrow> int option \<Rightarrow> tetromino list \<Rightarrow> bool" where
  "checkCollision [] cur placedTetrominos = False"
| "checkCollision ((x, y) # cells) cur placedTetrominos =
     (if x < 0 \<or> x \<ge> GRID_WIDTH \<or> y < 0 \<or> y \<ge> GRID_HEIGHT then True
      else if overlapsPlaced x y cur placedTetrominos then True
      else checkCollision cells cur placedTetrominos)"

subsection \<open>Loading the grid\<close>

record contribution =
  count_c :: int
  date_c :: string

definition default_cell :: cell where
  "default_cell = \<lparr>count = 0, level = 0, date = None\<rparr>"

definition loaded_cell :: "contribution \<Rightarrow> cell" where
  "loaded_cell c =
     \<lparr>count = count_c c, level = getContributionLevel (count_c c), date = Some (date_c c)\<rparr>"

text \<open>One iteration of the loop of \<open>transformContributionsToGrid\<close>, for index \<open>i\<close>.\<close>

definition fill_step :: "contribution list \<Rightarrow> nat \<Rightarrow> grid \<Rightarrow> grid" where
  "fill_step contributions i g =
     (let x = i div nat GRID_HEIGHT; y = i mod nat GRID_HEIGHT
      in if i < length contributions \<and> int y < GRID_HEIGHT \<and> int x < GRID_WIDTH
         then g[y := (g ! y)[x := loaded_cell (contributions ! i)]]
         else g)"

definition transformContributionsToGrid :: "contribution list \<Rightarrow> grid" where
  "transformContributionsToGrid contributions =
     fold (fill_step contributions) [0 ..< nat (GRID_WIDTH * GRID_HEIGHT)]
       (replicate (nat GRID_HEIGHT) (replicate (nat GRID_WIDTH) default_cell))"

subsection \<open>Details of a piece\<close>

text \<open>
  The level read for one absolute position: the level of the grid cell when the position
  is inside the grid and the row and the cell exist, and 0 otherwise.
\<close>

definition levelAt :: "grid \<Rightarrow> int \<Rightarrow> int \<Rightarrow> int" where
  "levelAt contributionGrid ax ay =
     (if ay \<ge> 0 \<and> ay < GRID_HEIGHT \<and> ax \<ge> 0 \<and> ax < GRID_WIDTH
         \<and> length contributionGrid > 0
         \<and> nat ay < length contributionGrid
         \<and> nat ax < length (contributionGrid ! nat ay)
      then level (contributionGrid ! nat ay ! nat ax)
      else 0)"

definition blockAt :: "grid \<Rightarrow> int \<times> int \<Rightarrow> block" where
  "blockAt contributionGrid p =
     (let lv = levelAt contributionGrid (fst p) (snd p);
          sc = getScoreFromContributionLevel lv
      in \<lparr>x_b = fst p, y_b = snd p, level_b = lv, score = sc,
          colorIndex = (if lv > 0 then lv - 1 else - 1)\<rparr>)"

text \<open>
  \<open>calculateTetrominoDetails\<close> for a piece type (the branch for a missing type is not
  modelled: every caller passes one of the seven types). The positions are the double
  sums of the anchor and the relative coordinates. The score is accumulated block by
  block, as the \<open>forEach\<close> does; a level is at most 5 in every grid the component
  builds, so these sums are exact.
\<close>

definition calculateTetrominoDetails :: "grid \<Rightarrow> tetromino_type \<Rightarrow> int \<Rightarrow> int \<Rightarrow> int \<Rightarrow> details" where
  "calculateTetrominoDetails contributionGrid ty currentX currentY currentRotation =
     (let relativeShape = rotateShape (TETROMINO_SHAPES ty) (TETROMINO_PIVOTS ty) currentRotation;
          positions = map (\<lambda>(rx, ry). (js_add currentX rx, js_add currentY ry)) relativeShape;
          blocks = map (blockAt contributionGrid) positions
      in \<lparr>absolutePositions = positions,
          scorePotential = foldl (\<lambda>s b. s + score b) 0 blocks,
          blockDetails = blocks\<rparr>)"

subsection \<open>Adjusting a drop position\<close>

text \<open>
  \<open>Math.min\<close> and \<open>Math.max\<close> of the spread of an array. Every shape has four points, so
  the arrays they are applied to are never empty; the value for no argument (\<open>Infinity\<close>
  and \<open>-Infinity\<close> in JavaScript) is left unspecified.
\<close>

fun Math_min :: "int list \<Rightarrow> int" where
  "Math_min (v # vs) = fold min vs v"

fun Math_max :: "int list \<Rightarrow> int" where
  "Math_max (v # vs) = fold max vs v"

definition getAdjustedDropPosition :: "tetromino_type \<Rightarrow> int \<Rightarrow> int \<Rightarrow> int \<Rightarrow> int \<times> int" where
  "getAdjustedDropPosition ty rot dropX dropY =
     (let relativeShape = rotateShape (TETROMINO_SHAPES ty) (TETROMINO_PIVOTS ty) rot;
          minX = Math_min (map fst relativeShape);
          maxX = Math_max (map fst relativeShape);
          minY = Math_min (map snd relativeShape);
          maxY = Math_max (map snd relativeShape);
          leftOverflow = - js_add dropX minX;
          rightOverflow = js_sub (js_add dropX maxX) (GRID_WIDTH - 1);
          topOverflow = - js_add dropY minY;
          bottomOverflow = js_sub (js_add dropY maxY) (GRID_HEIGHT - 1);
          adjustedX1 = (if leftOverflow > 0 then js_add dropX leftOverflow else dropX);
          adjustedX = (if rightOverflow > 0 then js_sub adjustedX1 rightOverflow else adjustedX1);
          adjustedY1 = (if topOverflow > 0 then js_add dropY topOverflow else dropY);
          adjustedY = (if bottomOverflow > 0 then js_sub adjustedY1 bottomOverflow else adjustedY1)
      in (adjustedX, adjustedY))"

subsection \<open>The handlers\<close>

record deck =
  contributionGrid :: grid
  placedTetrominos :: "tetromino list"

definition initial_deck :: deck where
  "initial_deck = \<lparr>contributionGrid = [], placedTetrominos = []\<rparr>"

text \<open>
  \<open>handlePlacement\<close>: \<open>None\<close> is the \<open>null\<close> it returns on a collision. The argument
  \<open>pid\<close> is the optional id (\<open>None\<close> for the default \<open>null\<close>), \<open>now\<close> is the value
  \<open>Date.now()\<close> returns; \<open>id || Date.now()\<close> takes the clock for a missing id and
  for the id 0.
\<close>

definition handlePlacement ::
  "grid \<Rightarrow> tetromino list \<Rightarrow> tetromino_type \<Rightarrow> int \<Rightarrow> int \<Rightarrow> int \<Rightarrow> int option \<Rightarrow> int
     \<Rightarrow> tetromino option" where
  "handlePlacement g placed ty rot baseDropX baseDropY pid now =
     (let pivot = TETROMINO_PIVOTS ty;
          centeredDropX = js_sub baseDropX \<lfloor>fst pivot\<rfloor>;
          centeredDropY = js_sub baseDropY \<lfloor>snd pivot\<rfloor>;
          adjusted = getAdjustedDropPosition ty rot centeredDropX centeredDropY;
          d = calculateTetrominoDetails g ty (fst adjusted) (snd adjusted) rot
      in if checkCollision (absolutePositions d) pid placed then None
         else Some (with_details d
                (case pid of None \<Rightarrow> now | Some i \<Rightarrow> if i = 0 then now else i)
                ty (fst adjusted) (snd adjusted) rot))"

text \<open>The two branches of \<open>handleDrop\<close>: a new piece from the palette, and a placed piece.\<close>

definition dropNew :: "deck \<Rightarrow> tetromino_type \<Rightarrow> int \<Rightarrow> int \<Rightarrow> int \<Rightarrow> deck" where
  "dropNew s ty dropGridX dropGridY now =
     (case handlePlacement (contributionGrid s) (placedTetrominos s) ty 0 dropGridX dropGridY
             None now of
        None \<Rightarrow> s
      | Some newPiece \<Rightarrow> s\<lparr>placedTetrominos := placedTetrominos s @ [newPiece]\<rparr>)"

definition dropMove :: "deck \<Rightarrow> int \<Rightarrow> int \<Rightarrow> int \<Rightarrow> int \<Rightarrow> deck" where
  "dropMove s draggedTetrominoId dropGridX dropGridY now =
     (case find (\<lambda>t. id_t t = draggedTetrominoId) (placedTetrominos s) of
        None \<Rightarrow> s
      | Some tetrominoToMove \<Rightarrow>
          (case handlePlacement (contributionGrid s) (placedTetrominos s)
                  (type_t tetrominoToMove) (rotation tetrominoToMove) dropGridX dropGridY
                  (Some draggedTetrominoId) now of
             None \<Rightarrow> s
           | Some movedPiece \<Rightarrow>
               s\<lparr>placedTetrominos :=
                    map (\<lambda>p. if id_t p = draggedTetrominoId then movedPiece else p)
                      (placedTetrominos s)\<rparr>))"

fun findIndex :: "('a \<Rightarrow> bool) \<Rightarrow> 'a list \<Rightarrow> nat option" where
  "findIndex P [] = None"
| "findIndex P (v # vs) =
     (if P v then Some 0 else map_option Suc (findIndex P vs))"

definition kickTranslations :: "(int \<times> int) list" where
  "kickTranslations = [(0, 0), (- 1, 0), (1, 0), (- 2, 0), (2, 0)]"

text \<open>
  The wall-kick loop of \<open>handleRotate\<close>: the piece as committed for the first
  translation that passes the collision check, \<open>None\<close> when the loop runs out.
\<close>

fun tryKicks ::
  "grid \<Rightarrow> tetromino list \<Rightarrow> tetromino \<Rightarrow> int \<Rightarrow> (int \<times> int) list \<Rightarrow> tetromino option" where
  "tryKicks g prev tetromino newRotation [] = None"
| "tryKicks g prev tetromino newRotation ((dx, dy) # kicks) =
     (let testX = js_add (x_t tetromino) dx;
          testY = js_add (y_t tetromino) dy;
          adjusted = getAdjustedDropPosition (type_t tetromino) newRotation testX testY;
          d = calculateTetrominoDetails g (type_t tetromino) (fst adjusted) (snd adjusted)
                newRotation
      in if \<not> checkCollision (absolutePositions d) (Some (id_t tetromino)) prev
         then Some (tetromino\<lparr>rotation := newRotation, x_t := fst adjusted, y_t := snd adjusted,
                      absolutePositions := absolutePositions d,
                      scorePotential := scorePotential d,
                      blockDetails := blockDetails d\<rparr>)
         else tryKicks g prev tetromino newRotation kicks)"

definition handleRotate :: "grid \<Rightarrow> tetromino list \<Rightarrow> int \<Rightarrow> tetromino list" where
  "handleRotate g prev pid =
     (case findIndex (\<lambda>t. id_t t = pid) prev of
        None \<Rightarrow> prev
      | Some tetrominoIndex \<Rightarrow>
          (let tetromino = prev ! tetrominoIndex;
               newRotation = js_rem (js_add (rotation tetromino) 90) 360
           in case tryKicks g prev tetromino newRotation kickTranslations of
                Some rotated \<Rightarrow> prev[tetrominoIndex := rotated]
              | None \<Rightarrow> prev))"

definition handleDelete :: "tetromino list \<Rightarrow> int \<Rightarrow> tetromino list" where
  "handleDelete prev pid = filter (\<lambda>t. id_t t \<noteq> pid) prev"

text \<open>The effect that recomputes the total whenever \<open>placedTetrominos\<close> changes.\<close>

definition potentialScore :: "tetromino list \<Rightarrow> int" where
  "potentialScore placed = foldl (\<lambda>sum piece. sum + scorePotential piece) 0 placed"

text \<open>
  The effect that runs when the grid changes (and loading has ended): every piece gets
  its details recomputed against the new grid.
\<close>

definition refreshScores :: "grid \<Rightarrow> tetromino list \<Rightarrow> tetromino list" where
  "refreshScores g currentTetrominos =
     (if length g > 0 \<and> length currentTetrominos > 0
      then map (\<lambda>t.
             let d = calculateTetrominoDetails g (type_t t) (x_t t) (y_t t) (rotation t)
             in t\<lparr>scorePotential := scorePotential d, blockDetails := blockDetails d,
                  absolutePositions := absolutePositions d\<rparr>) currentTetrominos
      else currentTetrominos)"

text \<open>
  A fetch that succeeded with the records \<open>data\<close>: an empty array is thrown away as an
  error and the state stays; otherwise the grid is replaced and the effect above runs.
\<close>

definition loadContributions :: "deck \<Rightarrow> contribution list \<Rightarrow> deck" where
  "loadContributions s data =
     (if data = [] then s
      else (let g = transformContributionsToGrid data
            in \<lparr>contributionGrid = g, placedTetrominos = refreshScores g (placedTetrominos s)\<rparr>))"

subsection \<open>Runs\<close>

datatype operation =
    Place tetromino_type int int int
  | Move int int int int
  | Rotate int
  | Delete int
  | Refresh "contribution list"

fun step :: "deck \<Rightarrow> operation \<Rightarrow> deck" where
  "step s (Place ty dropGridX dropGridY now) = dropNew s ty dropGridX dropGridY now"
| "step s (Move pid dropGridX dropGridY now) = dropMove s pid dropGridX dropGridY now"
| "step s (Rotate pid) =
     s\<lparr>placedTetrominos := handleRotate (contributionGrid s) (placedTetrominos s) pid\<rparr>"
| "step s (Delete pid) = s\<lparr>placedTetrominos := handleDelete (placedTetrominos s) pid\<rparr>"
| "step s (Refresh data) = loadContributions s data"

definition run :: "operation list \<Rightarrow> deck" where
  "run ops = foldl step initial_deck ops"

subsection \<open>Notions used to state the properties\<close>

text \<open>The relative shape both \<open>calculateTetrominoDetails\<close> and \<open>getAdjustedDropPosition\<close> start from.\<close>

definition relativeShape :: "tetromino_type \<Rightarrow> int \<Rightarrow> (int \<times> int) list" where
  "relativeShape ty rot = rotateShape (TETROMINO_SHAPES ty) (TETROMINO_PIVOTS ty) rot"

definition in_grid :: "int \<times> int \<Rightarrow> bool" where
  "in_grid c = (0 \<le> fst c \<and> fst c < 8 \<and> 0 \<le> snd c \<and> snd c < 7)"

text \<open>The score of a grid position: the level found there times 100.\<close>

definition cellScore :: "grid \<Rightarrow> int \<times> int \<Rightarrow> int" where
  "cellScore g c = levelAt g (fst c) (snd c) * 100"

text \<open>A piece whose derived fields are the ones computed from its type, anchor and rotation.\<close>

definition consistent :: "grid \<Rightarrow> tetromino \<Rightarrow> bool" where
  "consistent g p =
     (let d = calculateTetrominoDetails g (type_t p) (x_t p) (y_t p) (rotation p)
      in absolutePositions p = absolutePositions d \<and> scorePotential p = scorePotential d
         \<and> blockDetails p = blockDetails d)"

text \<open>
  A run in which the clock never is 0 and never repeats an id in use when a new piece is
  dropped.
\<close>

fun fresh_clock :: "deck \<Rightarrow> operation list \<Rightarrow> bool" where
  "fresh_clock s [] = True"
| "fresh_clock s (Place ty dropGridX dropGridY now # ops) =
     (now \<noteq> 0 \<and> now \<notin> set (map id_t (placedTetrominos s))
      \<and> fresh_clock (step s (Place ty dropGridX dropGridY now)) ops)"
| "fresh_clock s (operation # ops) = fresh_clock (step s operation) ops"

text \<open>
  The specification's \<open>collides\<close>: some cell is a cell of a placed piece whose id is not
  the excluded one.
\<close>

definition collides :: "(int \<times> int) list \<Rightarrow> int \<Rightarrow> tetromino list \<Rightarrow> bool" where
  "collides cells excludePieceId pieces =
     list_ex (\<lambda>q. id_t q \<noteq> excludePieceId
                \<and> list_ex (\<lambda>c. c \<in> set (absolutePositions q)) cells) pieces"

text \<open>
  The specification's description of one wall-kick candidate of a rotation, in its own
  (exact) arithmetic: the new rotation, the anchor moved by the offset and clamped for the
  new rotation, and the derived fields computed there.
\<close>

definition kicked :: "grid \<Rightarrow> tetromino \<Rightarrow> int \<times> int \<Rightarrow> tetromino" where
  "kicked g p offset =
     (let newRotation = (rotation p + 90) mod 360;
          anchor = getAdjustedDropPosition (type_t p) newRotation
                     (x_t p + fst offset) (y_t p + snd offset)
      in with_details
           (calculateTetrominoDetails g (type_t p) (fst anchor) (snd anchor) newRotation)
           (id_t p) (type_t p) (fst anchor) (snd anchor) newRotation)"

text \<open>A position for which the grid holds a row and a cell.\<close>

definition has_entry :: "grid \<Rightarrow> int \<times> int \<Rightarrow> bool" where
  "has_entry g c = (nat (snd c) < length g \<and> nat (fst c) < length (g ! nat (snd c)))"

text \<open>The cells a drop at a base position would occupy: the shape at the clamped, re-centred anchor.\<close>

definition dropCells :: "tetromino_type \<Rightarrow> int \<Rightarrow> int \<Rightarrow> int \<Rightarrow> (int \<times> int) list" where
  "dropCells ty rot baseDropX baseDropY =
     (let anchor = getAdjustedDropPosition ty rot
                     (js_sub baseDropX \<lfloor>fst (TETROMINO_PIVOTS ty)\<rfloor>)
                     (js_sub baseDropY \<lfloor>snd (TETROMINO_PIVOTS ty)\<rfloor>)
      in map (\<lambda>(rx, ry). (js_add (fst anchor) rx, js_add (snd anchor) ry))
           (relativeShape ty rot))"

text \<open>
  Some cell is a cell of another entry of the collection: an entry at an index other than
  \<open>i\<close>, whatever its id.
\<close>

definition overlapsOther :: "(int \<times> int) list \<Rightarrow> nat \<Rightarrow> tetromino list \<Rightarrow> bool" where
  "overlapsOther cells i pieces =
     list_ex (\<lambda>j. j \<noteq> i \<and> list_ex (\<lambda>c. c \<in> set (absolutePositions (pieces ! j))) cells)
       [0 ..< length pieces]"

subsection \<open>Notions used in the proofs\<close>

text \<open>
  The grid \<open>transformContributionsToGrid\<close> starts from, and the grid after the first \<open>n\<close>
  iterations of its loop.
\<close>

definition init_grid :: grid where
  "init_grid = replicate (nat GRID_HEIGHT) (replicate (nat GRID_WIDTH) default_cell)"

definition filled :: "contribution list \<Rightarrow> nat \<Rightarrow> grid" where
  "filled cs n = fold (fill_step cs) [0 ..< n] init_grid"

text \<open>The clamp of one axis in exact arithmetic: what the overflow shifts amount to.\<close>

definition clamp_exact :: "int \<Rightarrow> int \<Rightarrow> int \<Rightarrow> int \<Rightarrow> int" where
  "clamp_exact d lo hi edge = (if d + lo < 0 then - lo else if d + hi > edge then edge - hi else d)"

text \<open>What the grid effect does to one piece.\<close>

definition recompute :: "grid \<Rightarrow> tetromino \<Rightarrow> tetromino" where
  "recompute g t =
     t\<lparr>scorePotential := scorePotential (calculateTetrominoDetails g (type_t t) (x_t t) (y_t t) (rotation t)),
       blockDetails := blockDetails (calculateTetrominoDetails g (type_t t) (x_t t) (y_t t) (rotation t)),
       absolutePositions := absolutePositions (calculateTetrominoDetails g (type_t t) (x_t t) (y_t t) (rotation t))\<rparr>"

text \<open>
  The invariants of the deck: every piece carries the fields computed from its type,
  anchor and rotation, has a right-angle rotation and lies in the grid; pieces with
  different ids share no position; the grid is empty or has 7 rows of 8 cells. The last
  definition adds what holds when the clock is fresh: the ids are distinct and none is 0.
\<close>

definition piece_inv :: "grid \<Rightarrow> tetromino \<Rightarrow> bool" where
  "piece_inv g p = (consistent g p \<and> rotation p \<in> {0, 90, 180, 270}
      \<and> (\<forall>c \<in> set (absolutePositions p). in_grid c))"

definition apart :: "tetromino \<Rightarrow> tetromino \<Rightarrow> bool" where
  "apart p q = (set (absolutePositions p) \<inter> set (absolutePositions q) = {})"

definition pieces_inv :: "grid \<Rightarrow> tetromino list \<Rightarrow> bool" where
  "pieces_inv g ps = (\<forall>p \<in> set ps. piece_inv g p)"

definition disj_inv :: "tetromino list \<Rightarrow> bool" where
  "disj_inv ps = (\<forall>p \<in> set ps. \<forall>q \<in> set ps. id_t p \<noteq> id_t q \<longrightarrow> apart p q)"

definition grid_inv :: "grid \<Rightarrow> bool" where
  "grid_inv g = (g = [] \<or> (length g = 7 \<and> (\<forall>y < 7. length (g ! y) = 8)))"

definition deck_inv :: "deck \<Rightarrow> bool" where
  "deck_inv s = (pieces_inv (contributionGrid s) (placedTetrominos s)
      \<and> disj_inv (placedTetrominos s) \<and> grid_inv (contributionGrid s))"

definition ids_inv :: "deck \<Rightarrow> bool" where
  "ids_inv s = (distinct (map id_t (placedTetrominos s)) \<and> 0 \<notin> set (map id_t (placedTetrominos s)))"

subsection \<open>Sample inputs\<close>

text \<open>Concrete contributions and runs on which the theorems below are instantiated.\<close>

definition sample_contributions :: "contribution list" where
  "sample_contributions =
     [\<lparr>count_c = 0, date_c = ''2025-01-01''\<rparr>, \<lparr>count_c = 3, date_c = ''2025-01-02''\<rparr>,
      \<lparr>count_c = 7, date_c = ''2025-01-03''\<rparr>, \<lparr>count_c = 12, date_c = ''2025-01-04''\<rparr>,
      \<lparr>count_c = 25, date_c = ''2025-01-05''\<rparr>, \<lparr>count_c = - 1, date_c = ''2025-01-06''\<rparr>,
      \<lparr>count_c = 0, date_c = ''2025-01-07''\<rparr>, \<lparr>count_c = 1, date_c = ''2025-01-08''\<rparr>,
      \<lparr>count_c = 6, date_c = ''2025-01-09''\<rparr>]"

definition sample_run :: "operation list" where
  "sample_run =
     [Place TO 0 0 1000, Refresh sample_contributions, Place TI 1 0 1001,
      Place TL 1 2 1002, Rotate 1000, Move 1002 1 3 1003, Delete 1001]"

definition blocked_run :: "operation list" where
  "blocked_run = [Place TI 1 0 1000, Place TL 1 2 1001, Place TO 3 1 1002]"



definition shared_id_move_run :: "operation list" where
  "shared_id_move_run = [Place TI 1 0 5, Place TO 6 4 5]"

section \<open>Levels\<close>

text \<open>
  C6. \<open>getContributionLevel\<close> is the step function of the specification: a negative count
  gives 0, the count 0 gives 1, the counts 1 to 5 give 2, 6 to 10 give 3, 11 to 20 give 4
  and every count above 20 gives 5; the boundary table of the specification follows.
\<close>

theorem getContributionLevel_steps:
  "getContributionLevel c =
     (if c < 0 then 0 else if c = 0 then 1 else if c \<le> 5 then 2 else if c \<le> 10 then 3
      else if c \<le> 20 then 4 else 5)
   \<and> (c > 20 \<longrightarrow> getContributionLevel c = 5)
   \<and> (c > 10 \<and> \<not> c > 20 \<longrightarrow> getContributionLevel c = 4)
   \<and> (c > 5 \<and> \<not> c > 10 \<longrightarrow> getContributionLevel c = 3)
   \<and> (c > 0 \<and> \<not> c > 5 \<longrightarrow> getContributionLevel c = 2)
   \<and> (c \<ge> 0 \<and> \<not> c > 0 \<longrightarrow> getContributionLevel c = 1)
   \<and> (\<not> c \<ge> 0 \<longrightarrow> getContributionLevel c = 0)
   \<and> getContributionLevel (- 1) = 0 \<and> getContributionLevel 0 = 1
   \<and> getContributionLevel 1 = 2 \<and> getContributionLevel 5 = 2
   \<and> getContributionLevel 6 = 3 \<and> getContributionLevel 10 = 3
   \<and> getContributionLevel 11 = 4 \<and> getContributionLevel 20 = 4
   \<and> getContributionLevel 21 = 5"
  by (simp add: getContributionLevel_def)

theorem getContributionLevel_steps_witness:
  "getContributionLevel 7 = 3 \<and> getContributionLevel (- 4) = 0 \<and> getContributionLevel 1000 = 5"
  using getContributionLevel_steps [of 7] getContributionLevel_steps [of "- 4"]
    getContributionLevel_steps [of 1000]
  by simp

section \<open>Shapes and rotation\<close>

lemma relativeShape_table:
  "relativeShape TI 0 = [(0, 0), (1, 0), (2, 0), (3, 0)]"
  "relativeShape TI 90 = [(2, - 1), (2, 0), (2, 1), (2, 2)]"
  "relativeShape TI 180 = [(3, 1), (2, 1), (1, 1), (0, 1)]"
  "relativeShape TI 270 = [(1, 2), (1, 1), (1, 0), (1, - 1)]"
  "relativeShape TJ 0 = [(0, 0), (0, 1), (1, 1), (2, 1)]"
  "relativeShape TJ 90 = [(2, 0), (1, 0), (1, 1), (1, 2)]"
  "relativeShape TJ 180 = [(2, 2), (2, 1), (1, 1), (0, 1)]"
  "relativeShape TJ 270 = [(0, 2), (1, 2), (1, 1), (1, 0)]"
  "relativeShape TL 0 = [(2, 0), (0, 1), (1, 1), (2, 1)]"
  "relativeShape TL 90 = [(2, 2), (1, 0), (1, 1), (1, 2)]"
  "relativeShape TL 180 = [(0, 2), (2, 1), (1, 1), (0, 1)]"
  "relativeShape TL 270 = [(0, 0), (1, 2), (1, 1), (1, 0)]"
  "relativeShape TO 0 = [(0, 0), (1, 0), (0, 1), (1, 1)]"
  "relativeShape TO 90 = [(1, 0), (1, 1), (0, 0), (0, 1)]"
  "relativeShape TO 180 = [(1, 1), (0, 1), (1, 0), (0, 0)]"
  "relativeShape TO 270 = [(0, 1), (0, 0), (1, 1), (1, 0)]"
  "relativeShape TS 0 = [(1, 0), (2, 0), (0, 1), (1, 1)]"
  "relativeShape TS 90 = [(2, 1), (2, 2), (1, 0), (1, 1)]"
  "relativeShape TS 180 = [(1, 2), (0, 2), (2, 1), (1, 1)]"
  "relativeShape TS 270 = [(0, 1), (0, 0), (1, 2), (1, 1)]"
  "relativeShape TT 0 = [(1, 0), (0, 1), (1, 1), (2, 1)]"
  "relativeShape TT 90 = [(2, 1), (1, 0), (1, 1), (1, 2)]"
  "relativeShape TT 180 = [(1, 2), (2, 1), (1, 1), (0, 1)]"
  "relativeShape TT 270 = [(0, 1), (1, 2), (1, 1), (1, 0)]"
  "relativeShape TZ 0 = [(0, 0), (1, 0), (1, 1), (2, 1)]"
  "relativeShape TZ 90 = [(2, 0), (2, 1), (1, 1), (1, 2)]"
  "relativeShape TZ 180 = [(2, 2), (1, 2), (1, 1), (0, 1)]"
  "relativeShape TZ 270 = [(0, 2), (0, 1), (1, 1), (1, 0)]"
  by code_simp+

lemma Math_min_le: "v \<in> set vs \<Longrightarrow> Math_min vs \<le> v"
  by (cases vs) (auto simp flip: Min.set_eq_fold)

lemma Math_max_ge: "v \<in> set vs \<Longrightarrow> v \<le> Math_max vs"
  by (cases vs) (auto simp flip: Max.set_eq_fold)

lemma relativeShape_fits:
  assumes "rot \<in> {0, 90, 180, 270}"
  shows "length (relativeShape ty rot) = 4 \<and> distinct (relativeShape ty rot)
    \<and> Math_max (map fst (relativeShape ty rot)) - Math_min (map fst (relativeShape ty rot)) \<le> 3
    \<and> Math_max (map snd (relativeShape ty rot)) - Math_min (map snd (relativeShape ty rot)) \<le> 3"
  using assms by (cases ty) (auto simp: relativeShape_table)

section \<open>Rounding\<close>

lemma to_double_exact: "\<bar>v\<bar> \<le> 2 ^ 53 \<Longrightarrow> to_double v = v"
  unfolding to_double_def by (simp only: if_True)

lemma pow_div_ge:
  assumes "(k::int) * q \<le> a" and "q > 0"
  shows "k \<le> a div q"
proof -
  from assms(1) have "(k * q) div q \<le> a div q" by (rule zdiv_mono1) (rule assms(2))
  with assms(2) show ?thesis by simp
qed

lemma mantissa_bound:
  assumes "(4503599627370496::int) \<le> m" and "2 \<le> q"
  shows "9007199254740992 \<le> m * q"
proof -
  from assms(1) have "0 \<le> m" by linarith
  with assms(2) have "m * 2 \<le> m * q" by (rule mult_left_mono)
  with assms(1) show ?thesis by linarith
qed

lemma to_double_large:
  assumes "\<bar>v\<bar> > 2 ^ 53"
  shows "\<bar>to_double v\<bar> \<ge> 2 ^ 53"
proof -
  let ?a = "\<bar>v\<bar>"
  let ?n = "nat (bitlen ?a - 53)"
  let ?q = "(2::int) ^ ?n"
  let ?m = "?a div ?q"
  let ?m' = "(if 2 * (?a mod ?q) > ?q \<or> (2 * (?a mod ?q) = ?q \<and> odd ?m) then ?m + 1 else ?m)"
  have p: "(2::int) ^ 53 = 9007199254740992" "(2::int) ^ 52 = 4503599627370496" by simp_all
  from assms have a0: "?a > 0" unfolding p by linarith
  from bitlen_bounds [OF a0] have lo: "2 ^ nat (bitlen ?a - 1) \<le> ?a" and hi: "?a < 2 ^ nat (bitlen ?a)"
    by blast+
  have "\<not> nat (bitlen ?a) \<le> 53"
  proof
    assume "nat (bitlen ?a) \<le> 53"
    then have "(2::int) ^ nat (bitlen ?a) \<le> 2 ^ 53" by (rule power_increasing) simp
    with assms hi show False unfolding p by linarith
  qed
  then have b: "bitlen ?a \<ge> 54" by linarith
  then have n: "?n \<ge> 1" and e: "nat (bitlen ?a - 1) = 52 + ?n" by linarith+
  have "(2::int) ^ 1 \<le> ?q" using n by (rule power_increasing) simp
  then have q: "?q \<ge> 2" by simp
  have "(2::int) ^ (52 + ?n) \<le> ?a" using lo unfolding e .
  then have "2 ^ 52 * ?q \<le> ?a" unfolding power_add .
  then have m: "2 ^ 52 \<le> ?m" by (rule pow_div_ge) (use q in linarith)
  have "?m \<le> ?m'" by (simp only: split: if_split) simp
  with m have m': "2 ^ 52 \<le> ?m'" by (rule order_trans)
  have r: "2 ^ 53 \<le> ?m' * ?q"
    unfolding p by (rule mantissa_bound) (use m' q in \<open>unfold p\<close>)
  have ng: "\<not> \<bar>v\<bar> \<le> 2 ^ 53" using assms unfolding p by linarith
  have td: "to_double v = sgn v * (?m' * ?q)"
    unfolding to_double_def Let_def by (simp only: ng if_False)
  from a0 have "v \<noteq> 0" by auto
  then have "\<bar>sgn v\<bar> = 1" by (simp add: abs_sgn_eq)
  then have "\<bar>to_double v\<bar> = \<bar>?m' * ?q\<bar>" unfolding td abs_mult by simp
  with r show ?thesis by linarith
qed

lemma to_double_small: "\<bar>to_double v\<bar> < 2 ^ 53 \<Longrightarrow> to_double v = v"
  using to_double_large [of v] to_double_exact [of v] by (cases "\<bar>v\<bar> \<le> 2 ^ 53") auto

lemma js_add_exact: "\<bar>a + b\<bar> \<le> 2 ^ 53 \<Longrightarrow> js_add a b = a + b"
  by (simp add: js_add_def to_double_exact)

lemma js_sub_exact: "\<bar>a - b\<bar> \<le> 2 ^ 53 \<Longrightarrow> js_sub a b = a - b"
  by (simp add: js_sub_def to_double_exact)

lemma js_add_small: "\<bar>js_add a b\<bar> < 2 ^ 53 \<Longrightarrow> js_add a b = a + b"
  unfolding js_add_def by (rule to_double_small)

lemma clamp_axis_exact:
  assumes d: "\<bar>d\<bar> \<le> 2 ^ 53 - 8" and lo: "- 1 \<le> lo" and lh: "lo \<le> hi" and hi: "hi \<le> 3"
    and l4: "4 \<le> edge" and l7: "edge \<le> 7"
  shows "(if js_sub (js_add d hi) edge > 0
          then js_sub (if - js_add d lo > 0 then js_add d (- js_add d lo) else d)
                 (js_sub (js_add d hi) edge)
          else (if - js_add d lo > 0 then js_add d (- js_add d lo) else d))
         = clamp_exact d lo hi edge"
proof -
  have e1: "js_add d lo = d + lo" using d lo lh hi by (intro js_add_exact) simp
  have e2: "js_add d hi = d + hi" using d lo lh hi by (intro js_add_exact) simp
  have e3: "js_sub (d + hi) edge = d + hi - edge" using d lo lh hi l4 l7 by (intro js_sub_exact) simp
  have e4: "js_add d (- (d + lo)) = - lo" using lo lh hi by (simp add: js_add_def to_double_exact)
  have e5: "js_sub d (d + hi - edge) = edge - hi" using lo lh hi l4 l7
    by (simp add: js_sub_def to_double_exact)
  show ?thesis
    unfolding e1 e2 e3 e4 clamp_exact_def using lo lh hi l4 l7 by (simp add: e5)
qed

lemma relativeShape_range:
  assumes "rot \<in> {0, 90, 180, 270}"
  shows "- 1 \<le> Math_min (map fst (relativeShape ty rot))
    \<and> Math_min (map fst (relativeShape ty rot)) \<le> Math_max (map fst (relativeShape ty rot))
    \<and> Math_max (map fst (relativeShape ty rot)) \<le> 3
    \<and> - 1 \<le> Math_min (map snd (relativeShape ty rot))
    \<and> Math_min (map snd (relativeShape ty rot)) \<le> Math_max (map snd (relativeShape ty rot))
    \<and> Math_max (map snd (relativeShape ty rot)) \<le> 3"
  using assms by (cases ty) (auto simp: relativeShape_table)

lemma getAdjustedDropPosition_exact:
  assumes "rot \<in> {0, 90, 180, 270}" and "\<bar>dropX\<bar> \<le> 2 ^ 53 - 8" and "\<bar>dropY\<bar> \<le> 2 ^ 53 - 8"
  shows "getAdjustedDropPosition ty rot dropX dropY =
     (clamp_exact dropX (Math_min (map fst (relativeShape ty rot)))
        (Math_max (map fst (relativeShape ty rot))) 7,
      clamp_exact dropY (Math_min (map snd (relativeShape ty rot)))
        (Math_max (map snd (relativeShape ty rot))) 6)"
proof -
  from relativeShape_range [OF assms(1), of ty]
  have r: "- 1 \<le> Math_min (map fst (relativeShape ty rot))"
    "Math_min (map fst (relativeShape ty rot)) \<le> Math_max (map fst (relativeShape ty rot))"
    "Math_max (map fst (relativeShape ty rot)) \<le> 3"
    "- 1 \<le> Math_min (map snd (relativeShape ty rot))"
    "Math_min (map snd (relativeShape ty rot)) \<le> Math_max (map snd (relativeShape ty rot))"
    "Math_max (map snd (relativeShape ty rot)) \<le> 3"
    by blast+
  have x: "GRID_WIDTH - 1 = 7" and y: "GRID_HEIGHT - 1 = 6"
    by (simp_all add: GRID_WIDTH_def GRID_HEIGHT_def)
  show ?thesis
    unfolding getAdjustedDropPosition_def Let_def relativeShape_def [symmetric] x y
    by (simp only: clamp_axis_exact [OF assms(2) r(1,2,3)] clamp_axis_exact [OF assms(3) r(4,5,6)])
qed

section \<open>The collision check\<close>

lemma overlapsPlaced_iff:
  "overlapsPlaced x y cur ps \<longleftrightarrow>
     (\<exists>p \<in> set ps. cur \<noteq> Some (id_t p) \<and> (x, y) \<in> set (absolutePositions p))"
  by (induction ps) (auto simp: list_ex_iff)

lemma checkCollision_iff:
  "checkCollision cells cur ps \<longleftrightarrow>
     (\<exists>c \<in> set cells. \<not> in_grid c
        \<or> (\<exists>p \<in> set ps. cur \<noteq> Some (id_t p) \<and> c \<in> set (absolutePositions p)))"
  by (induction cells cur ps rule: checkCollision.induct)
     (auto simp: overlapsPlaced_iff in_grid_def GRID_WIDTH_def GRID_HEIGHT_def)

section \<open>Clamping an anchor\<close>

text \<open>
  C7, as the code has it. For every piece type, every rotation in 0, 90, 180, 270 and every
  requested anchor whose coordinates are at most \<open>2^53 - 8\<close> in magnitude (so that
  every sum the function forms is a double): if the bounding box of the rotated shape is at
  most 8 cells wide and at most 7 cells tall, then under the anchor
  \<open>getAdjustedDropPosition\<close> returns every point \<open>(px, py)\<close> of that bounding box lies
  in the grid, \<open>0 \<le> x < 8\<close> and \<open>0 \<le> y < 7\<close>.
\<close>

theorem clampAnchor_in_bounds:
  assumes "rot \<in> {0, 90, 180, 270}"
    and "\<bar>dropX\<bar> \<le> 2 ^ 53 - 8" and "\<bar>dropY\<bar> \<le> 2 ^ 53 - 8"
    and "Math_max (map fst (relativeShape ty rot)) - Math_min (map fst (relativeShape ty rot)) + 1 \<le> 8"
    and "Math_max (map snd (relativeShape ty rot)) - Math_min (map snd (relativeShape ty rot)) + 1 \<le> 7"
    and "Math_min (map fst (relativeShape ty rot)) \<le> px"
    and "px \<le> Math_max (map fst (relativeShape ty rot))"
    and "Math_min (map snd (relativeShape ty rot)) \<le> py"
    and "py \<le> Math_max (map snd (relativeShape ty rot))"
  shows "0 \<le> fst (getAdjustedDropPosition ty rot dropX dropY) + px
       \<and> fst (getAdjustedDropPosition ty rot dropX dropY) + px < 8
       \<and> 0 \<le> snd (getAdjustedDropPosition ty rot dropX dropY) + py
       \<and> snd (getAdjustedDropPosition ty rot dropX dropY) + py < 7"
  using assms(4-)
  unfolding getAdjustedDropPosition_exact [OF assms(1,2,3)] clamp_exact_def
  by (simp; linarith)

theorem clampAnchor_in_bounds_witness:
  "(90::int) \<in> {0, 90, 180, 270}
   \<and> \<bar>9::int\<bar> \<le> 2 ^ 53 - 8 \<and> \<bar>- 3::int\<bar> \<le> 2 ^ 53 - 8
   \<and> Math_max (map fst (relativeShape TI 90)) - Math_min (map fst (relativeShape TI 90)) + 1 \<le> 8
   \<and> Math_max (map snd (relativeShape TI 90)) - Math_min (map snd (relativeShape TI 90)) + 1 \<le> 7
   \<and> Math_min (map fst (relativeShape TI 90)) \<le> 2
   \<and> 2 \<le> Math_max (map fst (relativeShape TI 90))
   \<and> Math_min (map snd (relativeShape TI 90)) \<le> - 1
   \<and> - 1 \<le> Math_max (map snd (relativeShape TI 90))
   \<and> 0 \<le> fst (getAdjustedDropPosition TI 90 9 (- 3)) + 2
   \<and> fst (getAdjustedDropPosition TI 90 9 (- 3)) + 2 < 8
   \<and> 0 \<le> snd (getAdjustedDropPosition TI 90 9 (- 3)) + (- 1)
   \<and> snd (getAdjustedDropPosition TI 90 9 (- 3)) + (- 1) < 7"
proof -
  have h: "(90::int) \<in> {0, 90, 180, 270}"
    "\<bar>9::int\<bar> \<le> 2 ^ 53 - 8" "\<bar>- 3::int\<bar> \<le> 2 ^ 53 - 8"
    "Math_max (map fst (relativeShape TI 90)) - Math_min (map fst (relativeShape TI 90)) + 1 \<le> 8"
    "Math_max (map snd (relativeShape TI 90)) - Math_min (map snd (relativeShape TI 90)) + 1 \<le> 7"
    "Math_min (map fst (relativeShape TI 90)) \<le> 2"
    "2 \<le> Math_max (map fst (relativeShape TI 90))"
    "Math_min (map snd (relativeShape TI 90)) \<le> - 1"
    "- 1 \<le> Math_max (map snd (relativeShape TI 90))"
    by (simp_all add: relativeShape_table)
  from clampAnchor_in_bounds [OF h] h show ?thesis by blast
qed

text \<open>
  The requested anchor \<open>x = 2^53 + 2\<close> is a double. For the I piece at rotation 0 the sum
  \<open>x + 3\<close> is not: it rounds to \<open>2^53 + 4\<close>, the right overflow comes out as \<open>2^53 - 3\<close>
  and the anchor returned is 5, so that the last cell of the piece (relative \<open>x = 3\<close>)
  lies at \<open>x = 8\<close>, outside the grid. The same happens at \<open>x = 2^53 - 2\<close>, where
  \<open>x + 3\<close> rounds to \<open>2^53\<close>.
\<close>

theorem clamp_rounding_counterexample:
  "to_double 9007199254740994 = 9007199254740994
   \<and> Math_max (map fst (relativeShape TI 0)) - Math_min (map fst (relativeShape TI 0)) + 1 = 4
   \<and> Math_max (map snd (relativeShape TI 0)) - Math_min (map snd (relativeShape TI 0)) + 1 = 1
   \<and> fst (getAdjustedDropPosition TI 0 9007199254740994 0) = 5
   \<and> fst (getAdjustedDropPosition TI 0 9007199254740994 0)
       + Math_max (map fst (relativeShape TI 0)) = 8
   \<and> fst (getAdjustedDropPosition TI 0 9007199254740990 0)
       + Math_max (map fst (relativeShape TI 0)) = 8"
  by code_simp

lemma adjusted_cells_in_grid:
  assumes "rot \<in> {0, 90, 180, 270}" and "\<bar>dropX\<bar> \<le> 2 ^ 53 - 8" and "\<bar>dropY\<bar> \<le> 2 ^ 53 - 8"
    and "c \<in> set (relativeShape ty rot)"
  shows "js_add (fst (getAdjustedDropPosition ty rot dropX dropY)) (fst c)
           = fst (getAdjustedDropPosition ty rot dropX dropY) + fst c"
    and "js_add (snd (getAdjustedDropPosition ty rot dropX dropY)) (snd c)
           = snd (getAdjustedDropPosition ty rot dropX dropY) + snd c"
    and "in_grid (fst (getAdjustedDropPosition ty rot dropX dropY) + fst c,
                  snd (getAdjustedDropPosition ty rot dropX dropY) + snd c)"
proof -
  from relativeShape_range [OF assms(1), of ty]
  have r: "- 1 \<le> Math_min (map fst (relativeShape ty rot))"
    "Math_max (map fst (relativeShape ty rot)) \<le> 3"
    "- 1 \<le> Math_min (map snd (relativeShape ty rot))"
    "Math_max (map snd (relativeShape ty rot)) \<le> 3"
    by blast+
  have a: "Math_min (map fst (relativeShape ty rot)) \<le> fst c"
    "fst c \<le> Math_max (map fst (relativeShape ty rot))"
    "Math_min (map snd (relativeShape ty rot)) \<le> snd c"
    "snd c \<le> Math_max (map snd (relativeShape ty rot))"
    using assms(4) by (auto intro!: Math_min_le Math_max_ge)
  show g: "in_grid (fst (getAdjustedDropPosition ty rot dropX dropY) + fst c,
                  snd (getAdjustedDropPosition ty rot dropX dropY) + snd c)"
    using a r
    unfolding in_grid_def getAdjustedDropPosition_exact [OF assms(1,2,3)] clamp_exact_def
    by (simp; linarith)
  have p: "(2::int) ^ 53 = 9007199254740992" by simp
  from g show "js_add (fst (getAdjustedDropPosition ty rot dropX dropY)) (fst c)
           = fst (getAdjustedDropPosition ty rot dropX dropY) + fst c"
    by (intro js_add_exact) (simp add: in_grid_def)
  from g show "js_add (snd (getAdjustedDropPosition ty rot dropX dropY)) (snd c)
           = snd (getAdjustedDropPosition ty rot dropX dropY) + snd c"
    by (intro js_add_exact) (simp add: in_grid_def)
qed

section \<open>Details of a piece\<close>

lemma foldl_score_sum: "foldl (\<lambda>s b. s + score b) a bs = a + sum_list (map score bs)"
  by (induction bs arbitrary: a) auto

lemma length_rotateShape: "length (rotateShape sh pv rot) = length sh"
  by (simp add: rotateShape_def Let_def)

lemma length_SHAPES: "length (TETROMINO_SHAPES ty) = 4"
  by (cases ty) auto

lemma blockAt_fields:
  "x_b (blockAt g c) = fst c" "y_b (blockAt g c) = snd c"
  "level_b (blockAt g c) = levelAt g (fst c) (snd c)"
  "score (blockAt g c) = cellScore g c"
  by (simp_all add: blockAt_def Let_def cellScore_def getScoreFromContributionLevel_def)

lemma levelAt_outside:
  "\<not> in_grid (ax, ay) \<or> \<not> has_entry g (ax, ay) \<Longrightarrow> levelAt g ax ay = 0"
  by (auto simp: levelAt_def in_grid_def has_entry_def GRID_WIDTH_def GRID_HEIGHT_def)

lemma levelAt_inside:
  "in_grid (ax, ay) \<Longrightarrow> has_entry g (ax, ay) \<Longrightarrow> levelAt g ax ay = level (g ! nat ay ! nat ax)"
  by (auto simp: levelAt_def in_grid_def has_entry_def GRID_WIDTH_def GRID_HEIGHT_def)

lemma calc_fields:
  "absolutePositions (calculateTetrominoDetails g ty ax ay rot)
     = map (\<lambda>(rx, ry). (js_add ax rx, js_add ay ry)) (relativeShape ty rot)"
  "blockDetails (calculateTetrominoDetails g ty ax ay rot)
     = map (blockAt g) (absolutePositions (calculateTetrominoDetails g ty ax ay rot))"
  "scorePotential (calculateTetrominoDetails g ty ax ay rot)
     = sum_list (map (cellScore g) (absolutePositions (calculateTetrominoDetails g ty ax ay rot)))"
  "scorePotential (calculateTetrominoDetails g ty ax ay rot)
     = sum_list (map score (blockDetails (calculateTetrominoDetails g ty ax ay rot)))"
  by (simp_all add: calculateTetrominoDetails_def Let_def relativeShape_def foldl_score_sum
        comp_def blockAt_fields)

text \<open>
  C10. \<open>calculateTetrominoDetails\<close> is a total function of the grid, the type, the anchor and
  the rotation, with no failing branch: it yields 4 positions and one block per position; a
  block whose position is outside the grid, or for which the grid (empty, or partly
  filled) has no entry, has level 0 and score 0; a block inside has the level of its grid
  cell; each score is the level times 100; and \<open>scorePotential\<close> is the sum of the scores
  of the blocks.
\<close>

theorem calculateTetrominoDetails_total:
  "length (absolutePositions (calculateTetrominoDetails g ty ax ay rot)) = 4
   \<and> map (\<lambda>b. (x_b b, y_b b)) (blockDetails (calculateTetrominoDetails g ty ax ay rot))
       = absolutePositions (calculateTetrominoDetails g ty ax ay rot)
   \<and> (\<forall>b \<in> set (blockDetails (calculateTetrominoDetails g ty ax ay rot)).
         score b = level_b b * 100
         \<and> (\<not> in_grid (x_b b, y_b b) \<or> \<not> has_entry g (x_b b, y_b b)
              \<longrightarrow> level_b b = 0 \<and> score b = 0)
         \<and> (in_grid (x_b b, y_b b) \<and> has_entry g (x_b b, y_b b)
              \<longrightarrow> level_b b = level (g ! nat (y_b b) ! nat (x_b b))))
   \<and> scorePotential (calculateTetrominoDetails g ty ax ay rot)
       = sum_list (map score (blockDetails (calculateTetrominoDetails g ty ax ay rot)))"
proof -
  let ?d = "calculateTetrominoDetails g ty ax ay rot"
  have 1: "length (absolutePositions ?d) = 4"
    by (simp add: calc_fields(1) relativeShape_def length_rotateShape length_SHAPES)
  have 2: "map (\<lambda>b. (x_b b, y_b b)) (blockDetails ?d) = absolutePositions ?d"
    by (simp add: calc_fields(2) comp_def blockAt_fields)
  have 3: "score b = level_b b * 100
         \<and> (\<not> in_grid (x_b b, y_b b) \<or> \<not> has_entry g (x_b b, y_b b)
              \<longrightarrow> level_b b = 0 \<and> score b = 0)
         \<and> (in_grid (x_b b, y_b b) \<and> has_entry g (x_b b, y_b b)
              \<longrightarrow> level_b b = level (g ! nat (y_b b) ! nat (x_b b)))"
    if "b \<in> set (blockDetails ?d)" for b
  proof -
    from that obtain c where b: "b = blockAt g c"
      by (auto simp: calc_fields(2))
    show ?thesis
      using levelAt_outside [of "fst c" "snd c" g] levelAt_inside [of "fst c" "snd c" g]
      by (auto simp: b blockAt_fields cellScore_def)
  qed
  have 4: "scorePotential ?d = sum_list (map score (blockDetails ?d))"
    by (simp add: calc_fields(3)) (simp add: calc_fields(2) comp_def blockAt_fields)
  from 1 2 3 4 show ?thesis by blast
qed

theorem calculateTetrominoDetails_total_witness:
  "level_b (blockDetails (calculateTetrominoDetails [] TI 6 0 0) ! 2) = 0
   \<and> score (blockDetails (calculateTetrominoDetails [] TI 6 0 0) ! 2) = 0
   \<and> scorePotential (calculateTetrominoDetails [] TI 6 0 0)
       = sum_list (map score (blockDetails (calculateTetrominoDetails [] TI 6 0 0)))"
proof -
  let ?d = "calculateTetrominoDetails [] TI 6 0 0"
  have l: "length (blockDetails ?d) = 4" by code_simp
  have m: "blockDetails ?d ! 2 \<in> set (blockDetails ?d)"
    by (rule nth_mem) (simp add: l)
  have x: "x_b (blockDetails ?d ! 2) = 8" "y_b (blockDetails ?d ! 2) = 0"
    by code_simp+
  have o: "\<not> in_grid (8, 0)" by (simp add: in_grid_def)
  from calculateTetrominoDetails_total [of "[]" TI 6 0 0] m x o show ?thesis
    by auto
qed

section \<open>Loading the grid\<close>

lemma filled_Suc: "filled cs (Suc n) = fill_step cs n (filled cs n)"
  by (simp add: filled_def)

lemma idx_eq: "(i::nat) mod 7 = n mod 7 \<Longrightarrow> i div 7 = n div 7 \<Longrightarrow> i = n"
  by (metis div_mult_mod_eq)

lemma filled_inv:
  "n \<le> 56 \<Longrightarrow>
     length (filled cs n) = 7 \<and> (\<forall>y < 7. length (filled cs n ! y) = 8)
     \<and> (\<forall>i < 56. filled cs n ! (i mod 7) ! (i div 7)
            = (if i < n \<and> i < length cs then loaded_cell (cs ! i) else default_cell))"
proof (induction n)
  case 0
  show ?case
    by (auto simp: filled_def init_grid_def GRID_WIDTH_def GRID_HEIGHT_def less_mult_imp_div_less)
next
  case (Suc n)
  then have n: "n < 56" and IH: "length (filled cs n) = 7" "\<forall>y < 7. length (filled cs n ! y) = 8"
    "\<forall>i < 56. filled cs n ! (i mod 7) ! (i div 7)
            = (if i < n \<and> i < length cs then loaded_cell (cs ! i) else default_cell)"
    by auto
  have d: "n div 7 < 8" "n mod 7 < 7" using n by auto
  show ?case
  proof (cases "n < length cs")
    case False
    then have "filled cs (Suc n) = filled cs n"
      by (simp add: filled_Suc fill_step_def Let_def)
    with IH False show ?thesis by auto
  next
    case True
    then have e: "filled cs (Suc n)
        = (filled cs n)[n mod 7 := (filled cs n ! (n mod 7))[n div 7 := loaded_cell (cs ! n)]]"
      using d by (simp add: filled_Suc fill_step_def Let_def GRID_WIDTH_def GRID_HEIGHT_def)
    have 1: "length (filled cs (Suc n)) = 7" by (simp add: e IH)
    have 2: "\<forall>y < 7. length (filled cs (Suc n) ! y) = 8"
      using IH by (auto simp: e nth_list_update)
    have 3: "filled cs (Suc n) ! (i mod 7) ! (i div 7)
            = (if i < Suc n \<and> i < length cs then loaded_cell (cs ! i) else default_cell)"
      if "i < 56" for i
    proof (cases "i = n")
      case True
      with \<open>n < length cs\<close> d IH show ?thesis by (simp add: e)
    next
      case False
      have i: "i mod 7 < 7" "i div 7 < 8" using that by auto
      have "filled cs (Suc n) ! (i mod 7) ! (i div 7) = filled cs n ! (i mod 7) ! (i div 7)"
      proof (cases "i mod 7 = n mod 7")
        case True
        with False idx_eq [of i n] have "n div 7 \<noteq> i div 7" by auto
        with True d IH(1) show ?thesis by (simp add: e)
      next
        case False
        then show ?thesis by (simp add: e)
      qed
      with IH(3) that False show ?thesis by auto
    qed
    from 1 2 3 show ?thesis by blast
  qed
qed

lemma transform_filled: "transformContributionsToGrid cs = filled cs 56"
  by (simp add: transformContributionsToGrid_def filled_def init_grid_def GRID_WIDTH_def GRID_HEIGHT_def)

lemma fill_step_take: "i < 56 \<Longrightarrow> fill_step (take 56 cs) i g = fill_step cs i g"
  by (simp add: fill_step_def Let_def)

lemma transform_take: "transformContributionsToGrid (take 56 cs) = transformContributionsToGrid cs"
  unfolding transformContributionsToGrid_def
  by (rule fold_cong) (auto simp: fill_step_take GRID_WIDTH_def GRID_HEIGHT_def)

lemma transform_dims:
  "length (transformContributionsToGrid cs) = 7"
  "\<forall>y < 7. length (transformContributionsToGrid cs ! y) = 8"
  using filled_inv [of 56 cs] by (simp_all add: transform_filled)

text \<open>
  C4, as the code has it. \<open>transformContributionsToGrid\<close> yields 7 rows of 8 cells; for
  every index \<open>i < 56\<close> the cell in row \<open>i mod 7\<close> and column \<open>i div 7\<close> holds the count of
  record \<open>i\<close>, the level \<open>getContributionLevel\<close> gives that count, and its date, when the
  record exists; otherwise it is the default cell with count 0, level 0 and no date. Records
  from index 56 on are ignored.
\<close>

theorem transformContributionsToGrid_cells:
  "length (transformContributionsToGrid cs) = 7
   \<and> (\<forall>y < 7. length (transformContributionsToGrid cs ! y) = 8)
   \<and> (\<forall>i < 56. transformContributionsToGrid cs ! (i mod 7) ! (i div 7)
         = (if i < length cs
            then \<lparr>count = count_c (cs ! i), level = getContributionLevel (count_c (cs ! i)),
                  date = Some (date_c (cs ! i))\<rparr>
            else \<lparr>count = 0, level = 0, date = None\<rparr>))
   \<and> transformContributionsToGrid (take 56 cs) = transformContributionsToGrid cs"
  using filled_inv [of 56 cs]
  by (simp add: transform_filled [symmetric] transform_take loaded_cell_def default_cell_def)

theorem transformContributionsToGrid_cells_witness:
  "transformContributionsToGrid sample_contributions ! 1 ! 1
     = \<lparr>count = 6, level = 3, date = Some ''2025-01-09''\<rparr>
   \<and> transformContributionsToGrid sample_contributions ! 2 ! 1
     = \<lparr>count = 0, level = 0, date = None\<rparr>"
proof -
  from transformContributionsToGrid_cells [of sample_contributions]
  have a: "\<forall>i < 56. transformContributionsToGrid sample_contributions ! (i mod 7) ! (i div 7)
         = (if i < length sample_contributions
            then \<lparr>count = count_c (sample_contributions ! i),
                  level = getContributionLevel (count_c (sample_contributions ! i)),
                  date = Some (date_c (sample_contributions ! i))\<rparr>
            else \<lparr>count = 0, level = 0, date = None\<rparr>)"
    by blast
  from a [rule_format, of 8] a [rule_format, of 9] show ?thesis
    by (simp add: sample_contributions_def getContributionLevel_def)
qed

text \<open>
  With no record at all, the cell of index 0 has the default level 0, which is not the level 1
  that \<open>getContributionLevel\<close> gives the count 0.
\<close>

theorem default_level_counterexample:
  "level (transformContributionsToGrid [] ! 0 ! 0) \<noteq> getContributionLevel 0"
  by code_simp

section \<open>Invariants of the deck\<close>

lemma handlePlacement_SomeD:
  assumes "handlePlacement g ps ty rot bx by pid now = Some p"
  shows "consistent g p" and "type_t p = ty" and "rotation p = rot"
    and "id_t p = (case pid of None \<Rightarrow> now | Some i \<Rightarrow> if i = 0 then now else i)"
    and "\<not> checkCollision (absolutePositions p) pid ps"
  using assms
  by (auto simp: handlePlacement_def Let_def with_details_def consistent_def split: if_splits)

lemma tryKicks_SomeD:
  assumes "tryKicks g prev t nr ks = Some t'"
  shows "consistent g t' \<and> type_t t' = type_t t \<and> rotation t' = nr \<and> id_t t' = id_t t
    \<and> \<not> checkCollision (absolutePositions t') (Some (id_t t)) prev"
  using assms
proof (induction ks)
  case Nil
  then show ?case by simp
next
  case (Cons k ks)
  obtain dx dy where k: "k = (dx, dy)" by (cases k)
  from Cons show ?case
    by (auto simp: k Let_def consistent_def split: if_splits)
qed

lemma findIndex_SomeD:
  "findIndex P xs = Some i \<Longrightarrow> i < length xs \<and> P (xs ! i)"
proof (induction xs arbitrary: i)
  case Nil
  then show ?case by simp
next
  case (Cons v vs)
  then show ?case by (auto split: if_splits)
qed

lemma findIndex_None: "findIndex P xs = None \<longleftrightarrow> (\<forall>v \<in> set xs. \<not> P v)"
  by (induction xs) auto

lemma js_rem_rotation:
  assumes "r \<in> {0, 90, 180, 270}"
  shows "js_rem (js_add r 90) 360 = (r + 90) mod 360
     \<and> js_rem (js_add r 90) 360 \<in> {0, 90, 180, 270}"
proof -
  have "js_add r 90 = r + 90" using assms by (intro js_add_exact) auto
  with assms show ?thesis by (auto simp: js_rem_def)
qed

lemma no_collision_in_grid:
  "\<not> checkCollision cells cur ps \<Longrightarrow> c \<in> set cells \<Longrightarrow> in_grid c"
  by (auto simp: checkCollision_iff)

lemma no_collision_disjoint:
  "\<not> checkCollision cells cur ps \<Longrightarrow> q \<in> set ps \<Longrightarrow> cur \<noteq> Some (id_t q)
     \<Longrightarrow> set cells \<inter> set (absolutePositions q) = {}"
  by (auto simp: checkCollision_iff)

lemma consistent_cells:
  "consistent g p \<Longrightarrow>
     absolutePositions p
       = map (\<lambda>(rx, ry). (js_add (x_t p) rx, js_add (y_t p) ry))
           (relativeShape (type_t p) (rotation p))"
  by (simp add: consistent_def Let_def calc_fields(1))

lemma in_grid_exact:
  assumes "in_grid (js_add a b, js_add c d)"
  shows "js_add a b = a + b" and "js_add c d = c + d"
proof -
  have p: "(2::int) ^ 53 = 9007199254740992" by simp
  from assms have 1: "\<bar>js_add a b\<bar> < 2 ^ 53" and 2: "\<bar>js_add c d\<bar> < 2 ^ 53"
    unfolding p in_grid_def by simp_all
  from 1 show "js_add a b = a + b" by (rule js_add_small)
  from 2 show "js_add c d = c + d" by (rule js_add_small)
qed

lemma piece_cells_exact:
  assumes "piece_inv g p"
  shows "absolutePositions p
       = map (\<lambda>(rx, ry). (x_t p + rx, y_t p + ry)) (relativeShape (type_t p) (rotation p))"
proof -
  from assms have c: "consistent g p"
    and b: "\<forall>c \<in> set (absolutePositions p). in_grid c"
    by (auto simp: piece_inv_def)
  have "(js_add (x_t p) rx, js_add (y_t p) ry) = (x_t p + rx, y_t p + ry)"
    if "(rx, ry) \<in> set (relativeShape (type_t p) (rotation p))" for rx ry
  proof -
    from that have "(js_add (x_t p) rx, js_add (y_t p) ry) \<in> set (absolutePositions p)"
      unfolding consistent_cells [OF c] by force
    with b have "in_grid (js_add (x_t p) rx, js_add (y_t p) ry)" by blast
    from in_grid_exact [OF this] show ?thesis by simp
  qed
  then show ?thesis unfolding consistent_cells [OF c] by (intro map_cong) auto
qed

lemma piece_anchor_range:
  assumes "piece_inv g p"
  shows "- 3 \<le> x_t p \<and> x_t p \<le> 8 \<and> - 3 \<le> y_t p \<and> y_t p \<le> 8"
proof -
  let ?sh = "relativeShape (type_t p) (rotation p)"
  from assms have r: "rotation p \<in> {0, 90, 180, 270}"
    and b: "\<forall>c \<in> set (absolutePositions p). in_grid c"
    by (auto simp: piece_inv_def)
  from relativeShape_fits [OF r, of "type_t p"] have "?sh \<noteq> []" by auto
  then obtain c where c: "c \<in> set ?sh" by (cases ?sh) auto
  then have "(x_t p + fst c, y_t p + snd c) \<in> set (absolutePositions p)"
    unfolding piece_cells_exact [OF assms] by force
  with b have g: "in_grid (x_t p + fst c, y_t p + snd c)" by blast
  from c have m: "Math_min (map fst ?sh) \<le> fst c" "fst c \<le> Math_max (map fst ?sh)"
    "Math_min (map snd ?sh) \<le> snd c" "snd c \<le> Math_max (map snd ?sh)"
    by (auto intro!: Math_min_le Math_max_ge)
  from relativeShape_range [OF r, of "type_t p"] m g show ?thesis
    by (simp add: in_grid_def)
qed

lemma piece_inv_cells:
  assumes "piece_inv g p"
  shows "length (absolutePositions p) = 4 \<and> distinct (absolutePositions p)
     \<and> (\<forall>c \<in> set (absolutePositions p). in_grid c)"
proof -
  from assms have r: "rotation p \<in> {0, 90, 180, 270}"
    and b: "\<forall>c \<in> set (absolutePositions p). in_grid c"
    by (auto simp: piece_inv_def)
  have inj: "inj (\<lambda>(rx, ry). (x_t p + rx, y_t p + ry))"
    by (auto simp: inj_on_def)
  from relativeShape_fits [OF r, of "type_t p"] inj b show ?thesis
    by (simp add: piece_cells_exact [OF assms] distinct_map) (metis inj_on_subset subset_UNIV)
qed

lemma apart_sym: "apart p q \<Longrightarrow> apart q p"
  by (auto simp: apart_def)

lemma disj_extend:
  assumes "disj_inv ps" and "set ps' \<subseteq> insert n (set ps)"
    and "\<And>q. q \<in> set ps \<Longrightarrow> q \<in> set ps' \<Longrightarrow> id_t q \<noteq> id_t n \<Longrightarrow> apart n q"
  shows "disj_inv ps'"
  unfolding disj_inv_def
proof (intro ballI impI)
  fix p q assume p: "p \<in> set ps'" and q: "q \<in> set ps'" and ne: "id_t p \<noteq> id_t q"
  from p assms(2) have p': "p = n \<or> p \<in> set ps" by auto
  from q assms(2) have q': "q = n \<or> q \<in> set ps" by auto
  show "apart p q"
  proof (cases "p = n")
    case True
    with ne q' have "q \<in> set ps" by auto
    with assms(3) [of q] q ne True show ?thesis by auto
  next
    case False
    with p' have pp: "p \<in> set ps" by simp
    show ?thesis
    proof (cases "q = n")
      case True
      with assms(3) [of p] pp p ne show ?thesis by (auto intro: apart_sym)
    next
      case False
      with q' have "q \<in> set ps" by simp
      with pp ne assms(1) show ?thesis by (simp add: disj_inv_def)
    qed
  qed
qed

lemma pieces_extend:
  assumes "pieces_inv g ps" and "set ps' \<subseteq> insert n (set ps)" and "piece_inv g n"
  shows "pieces_inv g ps'"
  using assms unfolding pieces_inv_def by blast

lemma piece_inv_placed:
  assumes "handlePlacement g ps ty rot bx by pid now = Some p" and "rot \<in> {0, 90, 180, 270}"
  shows "piece_inv g p"
  unfolding piece_inv_def
proof (intro conjI ballI)
  show "consistent g p" by (rule handlePlacement_SomeD(1) [OF assms(1)])
  show "rotation p \<in> {0, 90, 180, 270}"
    using handlePlacement_SomeD(3) [OF assms(1)] assms(2) by simp
  fix c assume "c \<in> set (absolutePositions p)"
  then show "in_grid c"
    by (rule no_collision_in_grid [OF handlePlacement_SomeD(5) [OF assms(1)]])
qed

lemma placed_apart:
  assumes "handlePlacement g ps ty rot bx by pid now = Some p"
    and "q \<in> set ps" and "pid \<noteq> Some (id_t q)"
  shows "apart p q"
  unfolding apart_def
  by (rule no_collision_disjoint [OF handlePlacement_SomeD(5) [OF assms(1)] assms(2) assms(3)])

lemma deck_inv_dropNew:
  assumes "deck_inv s"
  shows "deck_inv (dropNew s ty bx by now)"
proof (cases "handlePlacement (contributionGrid s) (placedTetrominos s) ty 0 bx by None now")
  case None
  with assms show ?thesis by (simp add: dropNew_def)
next
  case (Some p)
  have e: "dropNew s ty bx by now = s\<lparr>placedTetrominos := placedTetrominos s @ [p]\<rparr>"
    by (simp add: dropNew_def Some)
  have sub: "set (placedTetrominos s @ [p]) \<subseteq> insert p (set (placedTetrominos s))" by auto
  have 1: "pieces_inv (contributionGrid s) (placedTetrominos s @ [p])"
  proof (rule pieces_extend [where n = p and ps = "placedTetrominos s"])
    show "pieces_inv (contributionGrid s) (placedTetrominos s)"
      using assms by (simp add: deck_inv_def)
    show "set (placedTetrominos s @ [p]) \<subseteq> insert p (set (placedTetrominos s))" by (rule sub)
    show "piece_inv (contributionGrid s) p" using piece_inv_placed [OF Some] by simp
  qed
  have 2: "disj_inv (placedTetrominos s @ [p])"
  proof (rule disj_extend [where n = p and ps = "placedTetrominos s"])
    show "disj_inv (placedTetrominos s)" using assms by (simp add: deck_inv_def)
    show "set (placedTetrominos s @ [p]) \<subseteq> insert p (set (placedTetrominos s))" by (rule sub)
    fix q assume "q \<in> set (placedTetrominos s)"
    then show "apart p q" by (intro placed_apart [OF Some]) simp_all
  qed
  from 1 2 assms show ?thesis by (simp add: deck_inv_def e)
qed

lemma deck_inv_dropMove:
  assumes "deck_inv s"
  shows "deck_inv (dropMove s d bx by now)"
proof (cases "find (\<lambda>t. id_t t = d) (placedTetrominos s)")
  case None
  with assms show ?thesis by (simp add: dropMove_def)
next
  case (Some t)
  let ?ps = "placedTetrominos s"
  from Some have t: "t \<in> set ?ps"
    by (auto simp: find_Some_iff)
  with assms have rt: "rotation t \<in> {0, 90, 180, 270}"
    by (simp add: deck_inv_def pieces_inv_def piece_inv_def)
  show ?thesis
  proof (cases "handlePlacement (contributionGrid s) ?ps (type_t t) (rotation t)
                  bx by (Some d) now")
    case None
    with assms Some show ?thesis by (simp add: dropMove_def)
  next
    case mp: (Some mp)
    let ?ps' = "map (\<lambda>p. if id_t p = d then mp else p) ?ps"
    have e: "dropMove s d bx by now = s\<lparr>placedTetrominos := ?ps'\<rparr>"
      by (simp add: dropMove_def Some mp)
    have sub: "set ?ps' \<subseteq> insert mp (set ?ps)" by auto
    have old: "id_t q \<noteq> d" if "q \<in> set ?ps'" "q \<noteq> mp" for q
      using that by auto
    have 1: "pieces_inv (contributionGrid s) ?ps'"
    proof (rule pieces_extend [where n = mp and ps = ?ps])
      show "pieces_inv (contributionGrid s) ?ps" using assms by (simp add: deck_inv_def)
      show "set ?ps' \<subseteq> insert mp (set ?ps)" by (rule sub)
      show "piece_inv (contributionGrid s) mp" by (rule piece_inv_placed [OF mp rt])
    qed
    have 2: "disj_inv ?ps'"
    proof (rule disj_extend [where n = mp and ps = ?ps])
      show "disj_inv ?ps" using assms by (simp add: deck_inv_def)
      show "set ?ps' \<subseteq> insert mp (set ?ps)" by (rule sub)
      fix q assume q: "q \<in> set ?ps" "q \<in> set ?ps'" "id_t q \<noteq> id_t mp"
      then have "q \<noteq> mp" by auto
      with old q(2) have "id_t q \<noteq> d" by blast
      with q(1) show "apart mp q" by (intro placed_apart [OF mp]) simp_all
    qed
    from 1 2 assms show ?thesis by (simp add: deck_inv_def e)
  qed
qed

lemma deck_inv_initial: "deck_inv initial_deck"
  by (simp add: deck_inv_def initial_deck_def pieces_inv_def disj_inv_def grid_inv_def)

lemma piece_inv_kicked:
  assumes "tryKicks g prev t (js_rem (js_add (rotation t) 90) 360) ks = Some r"
    and "rotation t \<in> {0, 90, 180, 270}"
  shows "piece_inv g r"
  unfolding piece_inv_def
proof (intro conjI ballI)
  note D = tryKicks_SomeD [OF assms(1)]
  show "consistent g r" using D by simp
  from D have rr: "rotation r = js_rem (js_add (rotation t) 90) 360" by blast
  show "rotation r \<in> {0, 90, 180, 270}"
    unfolding rr using js_rem_rotation [OF assms(2)] by blast
  fix c assume "c \<in> set (absolutePositions r)"
  with D show "in_grid c" using no_collision_in_grid by blast
qed

lemma kicked_apart:
  assumes "tryKicks g prev t nr ks = Some r" and "q \<in> set prev" and "id_t q \<noteq> id_t t"
  shows "apart r q"
  unfolding apart_def
  using tryKicks_SomeD [OF assms(1)] assms(2,3)
    no_collision_disjoint [of "absolutePositions r" "Some (id_t t)" prev q]
  by simp

lemma deck_inv_rotate:
  assumes "deck_inv s"
  shows "deck_inv (s\<lparr>placedTetrominos := handleRotate (contributionGrid s) (placedTetrominos s) pid\<rparr>)"
proof (cases "findIndex (\<lambda>t. id_t t = pid) (placedTetrominos s)")
  case None
  with assms show ?thesis by (simp add: handleRotate_def deck_inv_def)
next
  case (Some i)
  let ?ps = "placedTetrominos s"
  from findIndex_SomeD [OF Some] have i: "i < length ?ps" and idi: "id_t (?ps ! i) = pid"
    by auto
  from i have "?ps ! i \<in> set ?ps" by simp
  with assms have rt: "rotation (?ps ! i) \<in> {0, 90, 180, 270}"
    by (simp add: deck_inv_def pieces_inv_def piece_inv_def)
  show ?thesis
  proof (cases "tryKicks (contributionGrid s) ?ps (?ps ! i)
                  (js_rem (js_add (rotation (?ps ! i)) 90) 360)
                  kickTranslations")
    case None
    with assms Some show ?thesis by (simp add: handleRotate_def deck_inv_def)
  next
    case r: (Some r)
    have e: "handleRotate (contributionGrid s) ?ps pid = ?ps[i := r]"
      by (simp add: handleRotate_def Some r Let_def)
    have sub: "set (?ps[i := r]) \<subseteq> insert r (set ?ps)"
      by (rule set_update_subset_insert)
    have idr: "id_t r = id_t (?ps ! i)" using tryKicks_SomeD [OF r] by simp
    have 1: "pieces_inv (contributionGrid s) (?ps[i := r])"
    proof (rule pieces_extend [where n = r and ps = ?ps])
      show "pieces_inv (contributionGrid s) ?ps" using assms by (simp add: deck_inv_def)
      show "set (?ps[i := r]) \<subseteq> insert r (set ?ps)" by (rule sub)
      show "piece_inv (contributionGrid s) r" by (rule piece_inv_kicked [OF r rt])
    qed
    have 2: "disj_inv (?ps[i := r])"
    proof (rule disj_extend [where n = r and ps = ?ps])
      show "disj_inv ?ps" using assms by (simp add: deck_inv_def)
      show "set (?ps[i := r]) \<subseteq> insert r (set ?ps)" by (rule sub)
      fix q assume q: "q \<in> set ?ps" "id_t q \<noteq> id_t r"
      then show "apart r q" using idr by (intro kicked_apart [OF r]) simp_all
    qed
    from 1 2 assms show ?thesis by (simp add: deck_inv_def e)
  qed
qed

lemma deck_inv_delete:
  assumes "deck_inv s"
  shows "deck_inv (s\<lparr>placedTetrominos := handleDelete (placedTetrominos s) pid\<rparr>)"
  using assms by (simp add: deck_inv_def handleDelete_def pieces_inv_def disj_inv_def)

lemma refreshScores_map:
  "length g > 0 \<Longrightarrow> refreshScores g ps = map (recompute g) ps"
  by (cases ps) (simp_all add: refreshScores_def Let_def recompute_def)

lemma recompute_fields:
  "id_t (recompute g t) = id_t t" "type_t (recompute g t) = type_t t"
  "x_t (recompute g t) = x_t t" "y_t (recompute g t) = y_t t"
  "rotation (recompute g t) = rotation t"
  "consistent g (recompute g t)"
  by (simp_all add: recompute_def consistent_def Let_def)

lemma recompute_cells:
  assumes "consistent g0 t"
  shows "absolutePositions (recompute g t) = absolutePositions t"
  using assms by (simp add: recompute_def consistent_def Let_def calc_fields(1))

lemma piece_inv_recompute:
  assumes "piece_inv g0 t"
  shows "piece_inv g (recompute g t)"
proof -
  from assms have c: "consistent g0 t" by (simp add: piece_inv_def)
  from assms show ?thesis
    by (simp add: piece_inv_def recompute_fields recompute_cells [OF c])
qed

lemma deck_inv_refresh:
  assumes "pieces_inv g0 ps" and "disj_inv ps" and "length g > 0"
  shows "pieces_inv g (refreshScores g ps) \<and> disj_inv (refreshScores g ps)"
proof -
  have c: "consistent g0 t" if "t \<in> set ps" for t
    using assms(1) that by (simp add: pieces_inv_def piece_inv_def)
  have 1: "pieces_inv g (map (recompute g) ps)"
    using assms(1) piece_inv_recompute by (auto simp: pieces_inv_def)
  have 2: "disj_inv (map (recompute g) ps)"
    unfolding disj_inv_def
  proof (intro ballI impI)
    fix p q assume "p \<in> set (map (recompute g) ps)" "q \<in> set (map (recompute g) ps)"
      and ne: "id_t p \<noteq> id_t q"
    then obtain p0 q0 where p0: "p0 \<in> set ps" "p = recompute g p0"
      and q0: "q0 \<in> set ps" "q = recompute g q0" by auto
    from ne have "id_t p0 \<noteq> id_t q0" by (simp add: p0 q0 recompute_fields)
    with assms(2) p0 q0 have "apart p0 q0" by (simp add: disj_inv_def)
    then show "apart p q"
      by (simp add: apart_def p0 q0 recompute_cells [OF c [OF p0(1)]] recompute_cells [OF c [OF q0(1)]])
  qed
  from 1 2 show ?thesis by (simp add: refreshScores_map [OF assms(3)])
qed

lemma deck_inv_load:
  assumes "deck_inv s"
  shows "deck_inv (loadContributions s data)"
proof (cases "data = []")
  case True
  with assms show ?thesis by (simp add: loadContributions_def)
next
  case False
  let ?g = "transformContributionsToGrid data"
  have g: "length ?g = 7" "\<forall>y < 7. length (?g ! y) = 8"
    by (rule transform_dims)+
  have e: "loadContributions s data
     = \<lparr>contributionGrid = ?g, placedTetrominos = refreshScores ?g (placedTetrominos s)\<rparr>"
    using False by (simp add: loadContributions_def Let_def)
  have "pieces_inv ?g (refreshScores ?g (placedTetrominos s))
        \<and> disj_inv (refreshScores ?g (placedTetrominos s))"
    using assms g(1) by (intro deck_inv_refresh [where ?g0.0 = "contributionGrid s"]) (simp_all add: deck_inv_def)
  with g show ?thesis by (simp add: e deck_inv_def grid_inv_def)
qed

lemma deck_inv_step: "deck_inv s \<Longrightarrow> deck_inv (step s operation)"
  by (cases operation)
     (simp_all add: deck_inv_dropNew deck_inv_dropMove deck_inv_rotate deck_inv_delete deck_inv_load)

lemma deck_inv_foldl: "deck_inv s \<Longrightarrow> deck_inv (foldl step s ops)"
  by (induction ops arbitrary: s) (simp_all add: deck_inv_step)

lemma deck_inv_run: "deck_inv (run ops)"
  by (simp add: run_def deck_inv_foldl deck_inv_initial)

lemma ids_dropNew:
  assumes "ids_inv s" and "now \<noteq> 0" and "now \<notin> set (map id_t (placedTetrominos s))"
  shows "ids_inv (dropNew s ty bx by now)"
proof (cases "handlePlacement (contributionGrid s) (placedTetrominos s) ty 0 bx by None now")
  case None
  with assms show ?thesis by (simp add: dropNew_def)
next
  case (Some p)
  from handlePlacement_SomeD(4) [OF Some] have "id_t p = now" by simp
  with assms show ?thesis by (simp add: dropNew_def Some ids_inv_def)
qed

lemma ids_dropMove:
  assumes "ids_inv s"
  shows "map id_t (placedTetrominos (dropMove s d bx by now)) = map id_t (placedTetrominos s)"
proof (cases "find (\<lambda>t. id_t t = d) (placedTetrominos s)")
  case None
  then show ?thesis by (simp add: dropMove_def)
next
  case (Some t)
  then have "t \<in> set (placedTetrominos s)" "id_t t = d"
    by (auto simp: find_Some_iff)
  with assms have d: "d \<noteq> 0" by (auto simp: ids_inv_def)
  show ?thesis
  proof (cases "handlePlacement (contributionGrid s) (placedTetrominos s) (type_t t) (rotation t)
                  bx by (Some d) now")
    case None
    with Some show ?thesis by (simp add: dropMove_def)
  next
    case mp: (Some mp)
    from handlePlacement_SomeD(4) [OF mp] d have "id_t mp = d" by simp
    then show ?thesis by (simp add: dropMove_def Some mp)
  qed
qed

lemma ids_rotate:
  "map id_t (handleRotate g ps pid) = map id_t ps"
proof (cases "findIndex (\<lambda>t. id_t t = pid) ps")
  case None
  then show ?thesis by (simp add: handleRotate_def)
next
  case (Some i)
  from findIndex_SomeD [OF Some] have i: "i < length ps" by simp
  show ?thesis
  proof (cases "tryKicks g ps (ps ! i) (js_rem (js_add (rotation (ps ! i)) 90) 360)
                  kickTranslations")
    case None
    with Some show ?thesis by (simp add: handleRotate_def)
  next
    case r: (Some r)
    from tryKicks_SomeD [OF r] have "id_t r = map id_t ps ! i" using i by simp
    then show ?thesis by (simp add: handleRotate_def Some r Let_def map_update)
  qed
qed

lemma ids_refresh: "map id_t (refreshScores g ps) = map id_t ps"
  by (simp add: refreshScores_def Let_def comp_def)

lemma ids_load: "map id_t (placedTetrominos (loadContributions s data)) = map id_t (placedTetrominos s)"
  by (simp add: loadContributions_def Let_def ids_refresh)

lemma ids_delete: "ids_inv s \<Longrightarrow> ids_inv (s\<lparr>placedTetrominos := handleDelete (placedTetrominos s) pid\<rparr>)"
  by (auto simp: ids_inv_def handleDelete_def distinct_map_filter)

lemma ids_same: "map id_t (placedTetrominos s') = map id_t (placedTetrominos s) \<Longrightarrow> ids_inv s \<Longrightarrow> ids_inv s'"
  by (simp add: ids_inv_def)

lemma ids_foldl:
  "ids_inv s \<Longrightarrow> fresh_clock s ops \<Longrightarrow> ids_inv (foldl step s ops)"
proof (induction ops arbitrary: s)
  case Nil
  then show ?case by simp
next
  case (Cons operation ops)
  show ?case
  proof (cases operation)
    case (Place ty bx "by" now)
    with Cons.prems have "ids_inv (step s operation)" and "fresh_clock (step s operation) ops"
      by (simp_all add: ids_dropNew)
    then show ?thesis using Cons.IH by simp
  next
    case (Move d bx "by" now)
    with Cons.prems have "ids_inv (step s operation)" and "fresh_clock (step s operation) ops"
      by (simp_all add: ids_same [OF ids_dropMove])
    then show ?thesis using Cons.IH by simp
  next
    case (Rotate pid)
    with Cons.prems have "ids_inv (step s operation)" and "fresh_clock (step s operation) ops"
      by (simp_all add: ids_inv_def ids_rotate)
    then show ?thesis using Cons.IH by simp
  next
    case (Delete pid)
    with Cons.prems have "ids_inv (step s operation)" and "fresh_clock (step s operation) ops"
      by (simp_all add: ids_delete)
    then show ?thesis using Cons.IH by simp
  next
    case (Refresh data)
    with Cons.prems have "ids_inv (step s operation)" and "fresh_clock (step s operation) ops"
      by (simp_all add: ids_same [OF ids_load])
    then show ?thesis using Cons.IH by simp
  qed
qed

lemma ids_run: "fresh_clock initial_deck ops \<Longrightarrow> ids_inv (run ops)"
  unfolding run_def by (rule ids_foldl) (simp_all add: ids_inv_def initial_deck_def)

section \<open>Placed cells\<close>

text \<open>
  C1, as the code has it. After every sequence of operations from the initial deck, every
  placed piece has exactly 4 distinct positions, all inside the grid, and two placed
  pieces with different ids share no position. When the clock is never 0 at a drop and never
  equals an id in use (\<open>fresh_clock\<close>), any two pieces at different places of the collection
  share no position.
\<close>

theorem placed_cells_invariant:
  "(\<forall>p \<in> set (placedTetrominos (run ops)).
       length (absolutePositions p) = 4 \<and> distinct (absolutePositions p)
       \<and> (\<forall>c \<in> set (absolutePositions p). 0 \<le> fst c \<and> fst c < 8 \<and> 0 \<le> snd c \<and> snd c < 7))
   \<and> (\<forall>p \<in> set (placedTetrominos (run ops)). \<forall>q \<in> set (placedTetrominos (run ops)).
         id_t p \<noteq> id_t q \<longrightarrow> set (absolutePositions p) \<inter> set (absolutePositions q) = {})
   \<and> (fresh_clock initial_deck ops \<longrightarrow>
         (\<forall>i < length (placedTetrominos (run ops)). \<forall>j < length (placedTetrominos (run ops)).
            i \<noteq> j \<longrightarrow> set (absolutePositions (placedTetrominos (run ops) ! i))
                         \<inter> set (absolutePositions (placedTetrominos (run ops) ! j)) = {}))"
proof -
  let ?ps = "placedTetrominos (run ops)"
  note inv = deck_inv_run [of ops, unfolded deck_inv_def]
  have 1: "length (absolutePositions p) = 4 \<and> distinct (absolutePositions p)
       \<and> (\<forall>c \<in> set (absolutePositions p). 0 \<le> fst c \<and> fst c < 8 \<and> 0 \<le> snd c \<and> snd c < 7)"
    if "p \<in> set ?ps" for p
  proof -
    from inv that have "piece_inv (contributionGrid (run ops)) p"
      by (simp add: pieces_inv_def)
    from piece_inv_cells [OF this] show ?thesis by (simp add: in_grid_def)
  qed
  have 2: "set (absolutePositions p) \<inter> set (absolutePositions q) = {}"
    if "p \<in> set ?ps" "q \<in> set ?ps" "id_t p \<noteq> id_t q" for p q
    using inv that by (simp add: disj_inv_def apart_def)
  have 3: "set (absolutePositions (?ps ! i)) \<inter> set (absolutePositions (?ps ! j)) = {}"
    if f: "fresh_clock initial_deck ops" and ij: "i < length ?ps" "j < length ?ps" "i \<noteq> j" for i j
  proof -
    from ids_run [OF f] have "distinct (map id_t ?ps)" by (simp add: ids_inv_def)
    with ij have "map id_t ?ps ! i \<noteq> map id_t ?ps ! j"
      by (simp add: nth_eq_iff_index_eq del: nth_map)
    with ij have "id_t (?ps ! i) \<noteq> id_t (?ps ! j)" by simp
    with ij show ?thesis by (intro 2) simp_all
  qed
  from 1 2 3 show ?thesis by blast
qed

theorem placed_cells_invariant_witness:
  "fresh_clock initial_deck sample_run
   \<and> length (absolutePositions (placedTetrominos (run sample_run) ! 0)) = 4
   \<and> distinct (absolutePositions (placedTetrominos (run sample_run) ! 0))
   \<and> set (absolutePositions (placedTetrominos (run sample_run) ! 0))
       \<inter> set (absolutePositions (placedTetrominos (run sample_run) ! 1)) = {}"
proof -
  let ?ps = "placedTetrominos (run sample_run)"
  have f: "fresh_clock initial_deck sample_run" by code_simp
  have l: "length ?ps = 2" by code_simp
  then have m: "?ps ! 0 \<in> set ?ps" by simp
  note T = placed_cells_invariant [of sample_run]
  from T m have a: "length (absolutePositions (?ps ! 0)) = 4 \<and> distinct (absolutePositions (?ps ! 0))"
    by blast
  from T f have "\<forall>i < length ?ps. \<forall>j < length ?ps. i \<noteq> j \<longrightarrow>
      set (absolutePositions (?ps ! i)) \<inter> set (absolutePositions (?ps ! j)) = {}"
    by blast
  from this [rule_format, of 0 1] l
  have b: "set (absolutePositions (?ps ! 0)) \<inter> set (absolutePositions (?ps ! 1)) = {}" by simp
  from f a b show ?thesis by blast
qed

text \<open>
  Two drops at the same clock value 5 give an I piece and an O piece with the same id; the
  rotation of the I piece then skips the O piece in the collision check and lands on it: the
  positions \<open>(2, 1)\<close> and \<open>(2, 2)\<close> belong to both pieces.
\<close>

theorem overlap_counterexample:
  "map type_t (placedTetrominos (run [Place TI 1 0 5, Place TO 2 1 5, Rotate 5])) = [TI, TO]
   \<and> map absolutePositions (placedTetrominos (run [Place TI 1 0 5, Place TO 2 1 5, Rotate 5]))
       = [[(2, 0), (2, 1), (2, 2), (2, 3)], [(2, 1), (3, 1), (2, 2), (3, 2)]]"
  by code_simp

section \<open>Piece ids\<close>

text \<open>
  C5, as the code has it. A drop of a new piece either leaves the collection as it is or
  appends one piece whose id is the clock value of the drop. In every run in which the clock
  is never 0 at such a drop and never equals an id in use, the ids of the placed pieces are
  pairwise distinct.
\<close>

theorem ids_from_clock:
  "(placedTetrominos (dropNew s ty dropGridX dropGridY now) = placedTetrominos s
      \<or> (\<exists>p. placedTetrominos (dropNew s ty dropGridX dropGridY now) = placedTetrominos s @ [p]
              \<and> id_t p = now))
   \<and> (fresh_clock initial_deck ops \<longrightarrow> distinct (map id_t (placedTetrominos (run ops))))"
proof -
  have 1: "placedTetrominos (dropNew s ty dropGridX dropGridY now) = placedTetrominos s
      \<or> (\<exists>p. placedTetrominos (dropNew s ty dropGridX dropGridY now) = placedTetrominos s @ [p]
              \<and> id_t p = now)"
  proof (cases "handlePlacement (contributionGrid s) (placedTetrominos s) ty 0 dropGridX dropGridY
                  None now")
    case None
    then show ?thesis by (simp add: dropNew_def)
  next
    case (Some p)
    from handlePlacement_SomeD(4) [OF Some] have "id_t p = now" by simp
    then show ?thesis by (simp add: dropNew_def Some)
  qed
  have 2: "distinct (map id_t (placedTetrominos (run ops)))" if "fresh_clock initial_deck ops"
    using ids_run [OF that] by (simp add: ids_inv_def)
  from 1 2 show ?thesis by blast
qed

theorem ids_from_clock_witness:
  "fresh_clock initial_deck sample_run
   \<and> distinct (map id_t (placedTetrominos (run sample_run)))"
proof -
  have f: "fresh_clock initial_deck sample_run" by code_simp
  from ids_from_clock [where ops = sample_run] f show ?thesis by blast
qed

text \<open>Two successful drops at the same clock value give two pieces with the same id.\<close>

theorem same_id_counterexample:
  "map id_t (placedTetrominos (run [Place TI 1 0 5, Place TO 6 4 5])) = [5, 5]"
  by code_simp

section \<open>Scores\<close>

lemma potentialScore_sum: "potentialScore ps = sum_list (map scorePotential ps)"
proof -
  have "foldl (\<lambda>sum piece. sum + scorePotential piece) a ps = a + sum_list (map scorePotential ps)" for a
    by (induction ps arbitrary: a) auto
  then show ?thesis by (simp add: potentialScore_def)
qed

lemma consistent_score:
  "consistent g p \<Longrightarrow> scorePotential p = sum_list (map (cellScore g) (absolutePositions p))"
  by (simp add: consistent_def Let_def calc_fields(3))

lemma consistent_blocks:
  "consistent g p \<Longrightarrow> blockDetails p = map (blockAt g) (absolutePositions p)
     \<and> scorePotential p = sum_list (map score (blockDetails p))"
  unfolding consistent_def Let_def
  using calc_fields(2,4) [of g "type_t p" "x_t p" "y_t p" "rotation p"]
  by metis

text \<open>
  C2. After every sequence of operations, the total \<open>potentialScore\<close> of the placed pieces is
  the sum, over the placed pieces, of the sum over the 4 positions of the piece of the score
  of that position in the current grid; the score of a position is the level of its grid
  cell times 100 (and 0 while no grid is loaded).
\<close>

theorem potentialScore_is_cell_sum:
  "potentialScore (placedTetrominos (run ops))
     = (\<Sum>p\<leftarrow>placedTetrominos (run ops).
          \<Sum>c\<leftarrow>absolutePositions p. cellScore (contributionGrid (run ops)) c)
   \<and> (\<forall>p \<in> set (placedTetrominos (run ops)).
         length (absolutePositions p) = 4
         \<and> (\<forall>c \<in> set (absolutePositions p).
               cellScore (contributionGrid (run ops)) c
                 = (if contributionGrid (run ops) = [] then 0
                    else level (contributionGrid (run ops) ! nat (snd c) ! nat (fst c)) * 100)))"
proof -
  let ?s = "run ops"
  note inv = deck_inv_run [of ops, unfolded deck_inv_def]
  have pi: "piece_inv (contributionGrid ?s) p" if "p \<in> set (placedTetrominos ?s)" for p
    using inv that by (simp add: pieces_inv_def)
  have "map scorePotential (placedTetrominos ?s)
      = map (\<lambda>p. \<Sum>c\<leftarrow>absolutePositions p. cellScore (contributionGrid ?s) c) (placedTetrominos ?s)"
    using pi by (simp add: piece_inv_def consistent_score)
  then have 1: "potentialScore (placedTetrominos ?s)
     = (\<Sum>p\<leftarrow>placedTetrominos ?s. \<Sum>c\<leftarrow>absolutePositions p. cellScore (contributionGrid ?s) c)"
    unfolding potentialScore_sum by (rule arg_cong)
  have 2: "length (absolutePositions p) = 4" if "p \<in> set (placedTetrominos ?s)" for p
    using piece_inv_cells [OF pi [OF that]] by simp
  have 3: "cellScore (contributionGrid ?s) c
        = (if contributionGrid ?s = [] then 0
           else level (contributionGrid ?s ! nat (snd c) ! nat (fst c)) * 100)"
    if "p \<in> set (placedTetrominos ?s)" "c \<in> set (absolutePositions p)" for p c
  proof (cases "contributionGrid ?s = []")
    case True
    then show ?thesis by (simp add: cellScore_def levelAt_def)
  next
    case False
    with inv have g: "length (contributionGrid ?s) = 7" "\<forall>y < 7. length (contributionGrid ?s ! y) = 8"
      by (simp_all add: grid_inv_def)
    from piece_inv_cells [OF pi [OF that(1)]] that(2) have c: "in_grid c" by simp
    then have n: "nat (snd c) < 7" "nat (fst c) < 8" by (auto simp: in_grid_def)
    with g(2) have "length (contributionGrid ?s ! nat (snd c)) = 8" by blast
    with n g(1) have "has_entry (contributionGrid ?s) c"
      by (simp add: has_entry_def)
    with c levelAt_inside [of "fst c" "snd c" "contributionGrid ?s"] False show ?thesis
      by (simp add: cellScore_def)
  qed
  from 1 2 3 show ?thesis by blast
qed

theorem potentialScore_is_cell_sum_witness:
  "potentialScore (placedTetrominos (run sample_run))
     = (\<Sum>p\<leftarrow>placedTetrominos (run sample_run).
          \<Sum>c\<leftarrow>absolutePositions p. cellScore (contributionGrid (run sample_run)) c)
   \<and> length (absolutePositions (placedTetrominos (run sample_run) ! 0)) = 4
   \<and> cellScore (contributionGrid (run sample_run)) (1, 1)
       = level (contributionGrid (run sample_run) ! 1 ! 1) * 100"
proof -
  let ?ps = "placedTetrominos (run sample_run)"
  have l: "length ?ps = 2" by code_simp
  then have m: "?ps ! 0 \<in> set ?ps" by simp
  have c: "(1, 1) \<in> set (absolutePositions (?ps ! 0))" by code_simp
  have g: "contributionGrid (run sample_run) \<noteq> []" by code_simp
  note T = potentialScore_is_cell_sum [of sample_run]
  from T m have "length (absolutePositions (?ps ! 0)) = 4
       \<and> (\<forall>c \<in> set (absolutePositions (?ps ! 0)).
               cellScore (contributionGrid (run sample_run)) c
                 = (if contributionGrid (run sample_run) = [] then 0
                    else level (contributionGrid (run sample_run) ! nat (snd c) ! nat (fst c)) * 100))"
    by blast
  with c g have "length (absolutePositions (?ps ! 0)) = 4
    \<and> cellScore (contributionGrid (run sample_run)) (1, 1)
       = level (contributionGrid (run sample_run) ! 1 ! 1) * 100"
    by fastforce
  with T show ?thesis by blast
qed

text \<open>
  C9. Loading contributions in any reachable deck keeps the id, type, anchor, rotation and
  positions of every piece, in the same order, and the number of pieces; when the data is
  not empty the grid becomes the transformed data and every piece has its blocks and its
  \<open>scorePotential\<close> recomputed from the new grid. The load is a total function.
\<close>

theorem refresh_keeps_positions:
  "map id_t (placedTetrominos (loadContributions (run ops) data)) = map id_t (placedTetrominos (run ops))
   \<and> map type_t (placedTetrominos (loadContributions (run ops) data))
       = map type_t (placedTetrominos (run ops))
   \<and> map x_t (placedTetrominos (loadContributions (run ops) data))
       = map x_t (placedTetrominos (run ops))
   \<and> map y_t (placedTetrominos (loadContributions (run ops) data))
       = map y_t (placedTetrominos (run ops))
   \<and> map rotation (placedTetrominos (loadContributions (run ops) data))
       = map rotation (placedTetrominos (run ops))
   \<and> map absolutePositions (placedTetrominos (loadContributions (run ops) data))
       = map absolutePositions (placedTetrominos (run ops))
   \<and> length (placedTetrominos (loadContributions (run ops) data))
       = length (placedTetrominos (run ops))
   \<and> (data \<noteq> [] \<longrightarrow>
         contributionGrid (loadContributions (run ops) data) = transformContributionsToGrid data
         \<and> (\<forall>p \<in> set (placedTetrominos (loadContributions (run ops) data)).
               blockDetails p = map (blockAt (transformContributionsToGrid data)) (absolutePositions p)
               \<and> scorePotential p = sum_list (map score (blockDetails p))))"
proof (cases "data = []")
  case True
  then show ?thesis by (simp add: loadContributions_def)
next
  case False
  let ?s = "run ops"
  let ?g = "transformContributionsToGrid data"
  note inv = deck_inv_run [of ops, unfolded deck_inv_def]
  have c: "consistent (contributionGrid ?s) p" if "p \<in> set (placedTetrominos ?s)" for p
    using inv that by (simp add: pieces_inv_def piece_inv_def)
  have g: "length ?g > 0"
    by (simp add: transform_dims)
  have e: "loadContributions ?s data
     = \<lparr>contributionGrid = ?g, placedTetrominos = map (recompute ?g) (placedTetrominos ?s)\<rparr>"
    using False by (simp add: loadContributions_def Let_def refreshScores_map [OF g])
  have 1: "map (\<lambda>p. absolutePositions (recompute ?g p)) (placedTetrominos ?s)
       = map absolutePositions (placedTetrominos ?s)"
  proof (rule map_ext, rule impI)
    fix p assume "p \<in> set (placedTetrominos ?s)"
    from recompute_cells [OF c [OF this]]
    show "absolutePositions (recompute ?g p) = absolutePositions p" .
  qed
  have 2: "blockDetails p = map (blockAt ?g) (absolutePositions p)
               \<and> scorePotential p = sum_list (map score (blockDetails p))"
    if "p \<in> set (map (recompute ?g) (placedTetrominos ?s))" for p
  proof -
    from that obtain p0 where "p = recompute ?g p0" by auto
    then have "consistent ?g p" by (simp add: recompute_fields)
    then show ?thesis by (rule consistent_blocks)
  qed
  from 1 2 show ?thesis
    by (simp add: e comp_def recompute_fields)
qed

theorem refresh_keeps_positions_witness:
  "rev sample_contributions \<noteq> []
   \<and> map absolutePositions
        (placedTetrominos (loadContributions (run sample_run) (rev sample_contributions)))
       = map absolutePositions (placedTetrominos (run sample_run))
   \<and> length (placedTetrominos (loadContributions (run sample_run) (rev sample_contributions)))
       = length (placedTetrominos (run sample_run))
   \<and> scorePotential
        (placedTetrominos (loadContributions (run sample_run) (rev sample_contributions)) ! 0)
       = sum_list (map score (blockDetails
           (placedTetrominos (loadContributions (run sample_run) (rev sample_contributions)) ! 0)))"
proof -
  let ?ps = "placedTetrominos (loadContributions (run sample_run) (rev sample_contributions))"
  have d: "rev sample_contributions \<noteq> []" by (simp add: sample_contributions_def)
  have l: "length (placedTetrominos (run sample_run)) = 2" by code_simp
  note T = refresh_keeps_positions [of sample_run "rev sample_contributions"]
  from T l have "length ?ps = 2" by simp
  then have m: "?ps ! 0 \<in> set ?ps" by simp
  from T d m have "scorePotential (?ps ! 0) = sum_list (map score (blockDetails (?ps ! 0)))"
    by blast
  with T d show ?thesis by blast
qed

section \<open>Rotation with wall kicks\<close>

lemma collides_iff:
  "collides cells pid ps \<longleftrightarrow>
     (\<exists>q \<in> set ps. id_t q \<noteq> pid \<and> set cells \<inter> set (absolutePositions q) \<noteq> {})"
  by (auto simp: collides_def list_ex_iff)

lemma collides_checkCollision:
  "collides cells pid ps \<Longrightarrow> checkCollision cells (Some pid) ps"
  by (auto simp: collides_iff checkCollision_iff)

lemma checkCollision_collides:
  "(\<forall>c \<in> set cells. in_grid c) \<Longrightarrow> checkCollision cells (Some pid) ps \<longleftrightarrow> collides cells pid ps"
  by (auto simp: collides_iff checkCollision_iff)

lemma overlap_checkCollision:
  "q \<in> set ps \<Longrightarrow> set cells \<inter> set (absolutePositions q) \<noteq> {} \<Longrightarrow> checkCollision cells None ps"
  by (auto simp: checkCollision_iff)

lemma handlePlacement_cells:
  "handlePlacement g ps ty rot bx by pid now = None
     \<longleftrightarrow> checkCollision (dropCells ty rot bx by) pid ps"
  by (simp add: handlePlacement_def dropCells_def Let_def calc_fields(1))

lemma kicked_fields:
  "id_t (kicked g p k) = id_t p" "type_t (kicked g p k) = type_t p"
  "rotation (kicked g p k) = (rotation p + 90) mod 360"
  "(x_t (kicked g p k), y_t (kicked g p k))
     = getAdjustedDropPosition (type_t p) ((rotation p + 90) mod 360)
         (x_t p + fst k) (y_t p + snd k)"
  "consistent g (kicked g p k)"
  by (simp_all add: kicked_def Let_def with_details_def consistent_def)

lemma kicked_cells:
  assumes "piece_inv g0 p" and "\<bar>fst k\<bar> \<le> 2" and "\<bar>snd k\<bar> \<le> 2"
  shows "absolutePositions (kicked g p k)
       = map (\<lambda>(rx, ry). (x_t (kicked g p k) + rx, y_t (kicked g p k) + ry))
           (relativeShape (type_t p) ((rotation p + 90) mod 360))"
    and "\<forall>c \<in> set (absolutePositions (kicked g p k)). in_grid c"
proof -
  let ?nr = "(rotation p + 90) mod 360"
  let ?adj = "getAdjustedDropPosition (type_t p) ?nr (x_t p + fst k) (y_t p + snd k)"
  from assms(1) have "rotation p \<in> {0, 90, 180, 270}" by (simp add: piece_inv_def)
  then have r: "?nr \<in> {0, 90, 180, 270}" by auto
  have p: "(2::int) ^ 53 = 9007199254740992" by simp
  from piece_anchor_range [OF assms(1)] assms(2,3)
  have b: "\<bar>x_t p + fst k\<bar> \<le> 2 ^ 53 - 8" "\<bar>y_t p + snd k\<bar> \<le> 2 ^ 53 - 8"
    unfolding p by linarith+
  have xy: "x_t (kicked g p k) = fst ?adj" "y_t (kicked g p k) = snd ?adj"
    using kicked_fields(4) [of g p k] by (metis fst_conv, metis snd_conv)
  have e: "(js_add (fst ?adj) rx, js_add (snd ?adj) ry) = (fst ?adj + rx, snd ?adj + ry)
           \<and> in_grid (fst ?adj + rx, snd ?adj + ry)"
    if "(rx, ry) \<in> set (relativeShape (type_t p) ?nr)" for rx ry
    using adjusted_cells_in_grid [OF r b that] by simp
  have c: "absolutePositions (kicked g p k)
      = map (\<lambda>(rx, ry). (js_add (fst ?adj) rx, js_add (snd ?adj) ry))
          (relativeShape (type_t p) ?nr)"
    using consistent_cells [OF kicked_fields(5), of g p k] by (simp add: kicked_fields(2,3) xy)
  show 1: "absolutePositions (kicked g p k)
       = map (\<lambda>(rx, ry). (x_t (kicked g p k) + rx, y_t (kicked g p k) + ry))
           (relativeShape (type_t p) ?nr)"
    unfolding c xy using e by (intro map_cong) auto
  show "\<forall>c \<in> set (absolutePositions (kicked g p k)). in_grid c"
    unfolding 1 xy using e by auto
qed

lemma tryKicks_Cons_kicked:
  assumes "piece_inv g0 t" and "\<bar>fst k\<bar> \<le> 2" and "\<bar>snd k\<bar> \<le> 2"
  shows "tryKicks g prev t (js_rem (js_add (rotation t) 90) 360) (k # ks)
     = (if \<not> checkCollision (absolutePositions (kicked g t k)) (Some (id_t t)) prev
        then Some (kicked g t k)
        else tryKicks g prev t (js_rem (js_add (rotation t) 90) 360) ks)"
proof -
  from assms(1) have "rotation t \<in> {0, 90, 180, 270}" by (simp add: piece_inv_def)
  from js_rem_rotation [OF this]
  have nr: "js_rem (js_add (rotation t) 90) 360 = (rotation t + 90) mod 360" by simp
  have p: "(2::int) ^ 53 = 9007199254740992" by simp
  from piece_anchor_range [OF assms(1)] assms(2,3)
  have b: "\<bar>x_t t + fst k\<bar> \<le> 2 ^ 53" "\<bar>y_t t + snd k\<bar> \<le> 2 ^ 53"
    unfolding p by linarith+
  have a: "js_add (x_t t) (fst k) = x_t t + fst k" "js_add (y_t t) (snd k) = y_t t + snd k"
    by (rule js_add_exact [OF b(1)], rule js_add_exact [OF b(2)])
  show ?thesis
    unfolding nr using a by (cases t; cases k) (simp add: kicked_def Let_def with_details_def)
qed

lemma tryKicks_find:
  assumes "piece_inv g0 t" and "\<forall>k \<in> set ks. \<bar>fst k\<bar> \<le> 2 \<and> \<bar>snd k\<bar> \<le> 2"
  shows "tryKicks g prev t (js_rem (js_add (rotation t) 90) 360) ks
     = map_option (kicked g t)
         (find (\<lambda>k. \<not> checkCollision (absolutePositions (kicked g t k)) (Some (id_t t)) prev) ks)"
  using assms(2)
proof (induction ks)
  case Nil
  show ?case by simp
next
  case (Cons k ks)
  then show ?case
    by (simp add: tryKicks_Cons_kicked [OF assms(1)] del: tryKicks.simps)
qed

lemma kicks_small: "\<forall>k \<in> set kickTranslations. \<bar>fst k\<bar> \<le> 2 \<and> \<bar>snd k\<bar> \<le> 2"
  by (simp add: kickTranslations_def)

text \<open>\<open>handleRotate\<close> on a piece that satisfies the invariant, in terms of \<open>collides\<close>.\<close>

lemma handleRotate_find:
  assumes "findIndex (\<lambda>t. id_t t = pid) prev = Some i" and "piece_inv g0 (prev ! i)"
  shows "handleRotate g prev pid =
           (case find (\<lambda>offset. \<not> collides (absolutePositions (kicked g (prev ! i) offset)) pid prev)
                   [(0, 0), (- 1, 0), (1, 0), (- 2, 0), (2, 0)] of
              None \<Rightarrow> prev
            | Some offset \<Rightarrow> prev[i := kicked g (prev ! i) offset])"
proof -
  let ?t = "prev ! i"
  from findIndex_SomeD [OF assms(1)] have idt: "id_t ?t = pid" by simp
  have cc: "(\<not> checkCollision (absolutePositions (kicked g ?t k)) (Some pid) prev)
      = (\<not> collides (absolutePositions (kicked g ?t k)) pid prev)"
    if "k \<in> set kickTranslations" for k
    using kicked_cells(2) [OF assms(2), of k g] kicks_small that
    by (simp add: checkCollision_collides)
  have f: "find (\<lambda>k. \<not> checkCollision (absolutePositions (kicked g ?t k)) (Some pid) prev)
             kickTranslations
         = find (\<lambda>k. \<not> collides (absolutePositions (kicked g ?t k)) pid prev) kickTranslations"
    by (rule find_cong) (simp_all add: cc)
  show ?thesis
    unfolding handleRotate_def assms(1) option.case Let_def
      tryKicks_find [OF assms(2) kicks_small] idt f
    by (simp add: kickTranslations_def option.case_eq_if)
qed

lemma overlapsOther_iff:
  "overlapsOther cells i ps \<longleftrightarrow>
     (\<exists>j < length ps. j \<noteq> i \<and> set cells \<inter> set (absolutePositions (ps ! j)) \<noteq> {})"
  by (auto simp: overlapsOther_def list_ex_iff)

lemma collides_overlapsOther:
  assumes "distinct (map id_t ps)" and "i < length ps" and "id_t (ps ! i) = pid"
  shows "collides cells pid ps \<longleftrightarrow> overlapsOther cells i ps"
proof
  assume "collides cells pid ps"
  then obtain q where q: "q \<in> set ps" "id_t q \<noteq> pid"
    "set cells \<inter> set (absolutePositions q) \<noteq> {}"
    by (auto simp: collides_iff)
  from q(1) obtain j where j: "j < length ps" "q = ps ! j" by (auto simp: in_set_conv_nth)
  with q(2) assms(3) have "j \<noteq> i" by auto
  with j q(3) show "overlapsOther cells i ps" unfolding overlapsOther_iff by blast
next
  assume "overlapsOther cells i ps"
  then obtain j where j: "j < length ps" "j \<noteq> i"
    "set cells \<inter> set (absolutePositions (ps ! j)) \<noteq> {}"
    unfolding overlapsOther_iff by blast
  from assms(1,2) j(1,2) have "map id_t ps ! j \<noteq> map id_t ps ! i"
    by (simp add: nth_eq_iff_index_eq del: nth_map)
  with assms(2,3) j(1) have "id_t (ps ! j) \<noteq> pid" by simp
  with j show "collides cells pid ps" unfolding collides_iff by (meson nth_mem)
qed

lemma find_findIndex: "findIndex P xs = Some i \<Longrightarrow> find P xs = Some (xs ! i)"
proof (induction xs arbitrary: i)
  case Nil
  then show ?case by simp
next
  case (Cons v vs)
  then show ?case by (auto split: if_splits)
qed

lemma reachable_piece:
  assumes "findIndex P (placedTetrominos (run ops)) = Some i"
  shows "piece_inv (contributionGrid (run ops)) (placedTetrominos (run ops) ! i)"
proof -
  from findIndex_SomeD [OF assms] have "placedTetrominos (run ops) ! i \<in> set (placedTetrominos (run ops))"
    by simp
  with deck_inv_run [of ops] show ?thesis by (simp add: deck_inv_def pieces_inv_def)
qed

lemma reachable_collides:
  assumes "fresh_clock initial_deck ops"
    and "findIndex (\<lambda>t. id_t t = pid) (placedTetrominos (run ops)) = Some i"
  shows "collides cells pid (placedTetrominos (run ops))
           = overlapsOther cells i (placedTetrominos (run ops))"
proof -
  from ids_run [OF assms(1)] have "distinct (map id_t (placedTetrominos (run ops)))"
    by (simp add: ids_inv_def)
  with findIndex_SomeD [OF assms(2)] show ?thesis
    by (intro collides_overlapsOther) simp_all
qed




section \<open>Rejected operations\<close>

text \<open>
  C8, as the code has it. A failing operation leaves the collection as it is. A drop of a
  new piece whose cells would share a cell with any placed piece, and any drop for which
  \<open>handlePlacement\<close> returns \<open>null\<close>, returns the deck unchanged; so does a move whose cells
  would share a cell with a piece of another id (the moved piece keeps anchor and
  rotation), and a move of an absent id. In a reachable collection a rotation for which
  every wall-kick candidate shares a cell with a piece of another id returns the collection
  unchanged. Deleting or rotating an absent id changes nothing. Pieces that share the id of
  the moved or rotated piece are not looked at; when the clock is fresh, so that ids are
  distinct, a move or a rotation that would share a cell with any other entry of the
  collection is rejected in this way.
\<close>

theorem failed_operations_keep_collection:
  "((\<exists>q \<in> set (placedTetrominos s).
        set (dropCells ty 0 dropGridX dropGridY) \<inter> set (absolutePositions q) \<noteq> {})
      \<longrightarrow> dropNew s ty dropGridX dropGridY now = s)
   \<and> (handlePlacement (contributionGrid s) (placedTetrominos s) ty 0 dropGridX dropGridY None now
          = None
      \<longrightarrow> dropNew s ty dropGridX dropGridY now = s)
   \<and> (find (\<lambda>t. id_t t = d) (placedTetrominos s) = Some t
        \<and> collides (dropCells (type_t t) (rotation t) dropGridX dropGridY) d (placedTetrominos s)
      \<longrightarrow> dropMove s d dropGridX dropGridY now = s)
   \<and> (find (\<lambda>t. id_t t = d) (placedTetrominos s) = Some t
        \<and> handlePlacement (contributionGrid s) (placedTetrominos s) (type_t t) (rotation t)
             dropGridX dropGridY (Some d) now = None
      \<longrightarrow> dropMove s d dropGridX dropGridY now = s)
   \<and> (find (\<lambda>t. id_t t = d) (placedTetrominos s) = None
      \<longrightarrow> dropMove s d dropGridX dropGridY now = s)
   \<and> (findIndex (\<lambda>t. id_t t = pid) (placedTetrominos (run ops)) = Some i
        \<and> (\<forall>offset \<in> set [(0, 0), (- 1, 0), (1, 0), (- 2, 0), (2, 0)].
               collides (absolutePositions (kicked g (placedTetrominos (run ops) ! i) offset))
                 pid (placedTetrominos (run ops)))
      \<longrightarrow> handleRotate g (placedTetrominos (run ops)) pid = placedTetrominos (run ops))
   \<and> (pid \<notin> set (map id_t ps) \<longrightarrow> handleDelete ps pid = ps \<and> handleRotate g ps pid = ps)
   \<and> (fresh_clock initial_deck ops
        \<and> findIndex (\<lambda>t. id_t t = d) (placedTetrominos (run ops)) = Some i
        \<and> overlapsOther
             (dropCells (type_t (placedTetrominos (run ops) ! i))
                (rotation (placedTetrominos (run ops) ! i)) dropGridX dropGridY)
             i (placedTetrominos (run ops))
      \<longrightarrow> dropMove (run ops) d dropGridX dropGridY now = run ops)
   \<and> (fresh_clock initial_deck ops
        \<and> findIndex (\<lambda>t. id_t t = pid) (placedTetrominos (run ops)) = Some i
        \<and> (\<forall>offset \<in> set [(0, 0), (- 1, 0), (1, 0), (- 2, 0), (2, 0)].
               overlapsOther (absolutePositions (kicked g (placedTetrominos (run ops) ! i) offset))
                 i (placedTetrominos (run ops)))
      \<longrightarrow> handleRotate g (placedTetrominos (run ops)) pid = placedTetrominos (run ops))"
proof -
  let ?rs = "placedTetrominos (run ops)"
  have 1: "dropNew s ty dropGridX dropGridY now = s"
    if "\<exists>q \<in> set (placedTetrominos s).
        set (dropCells ty 0 dropGridX dropGridY) \<inter> set (absolutePositions q) \<noteq> {}"
  proof -
    from that have "checkCollision (dropCells ty 0 dropGridX dropGridY) None (placedTetrominos s)"
      by (auto intro: overlap_checkCollision)
    then have "handlePlacement (contributionGrid s) (placedTetrominos s) ty 0 dropGridX dropGridY
                 None now = None"
      by (simp add: handlePlacement_cells)
    then show ?thesis by (simp add: dropNew_def)
  qed
  have 2: "dropNew s ty dropGridX dropGridY now = s"
    if "handlePlacement (contributionGrid s) (placedTetrominos s) ty 0 dropGridX dropGridY None now
          = None"
    using that by (simp add: dropNew_def)
  have 4: "dropMove s' d dropGridX dropGridY now = s'"
    if "find (\<lambda>t. id_t t = d) (placedTetrominos s') = Some t'"
      and "handlePlacement (contributionGrid s') (placedTetrominos s') (type_t t') (rotation t')
             dropGridX dropGridY (Some d) now = None" for s' t'
    using that by (simp add: dropMove_def)
  have 3: "dropMove s' d dropGridX dropGridY now = s'"
    if f: "find (\<lambda>t. id_t t = d) (placedTetrominos s') = Some t'"
      and c: "collides (dropCells (type_t t') (rotation t') dropGridX dropGridY) d (placedTetrominos s')"
    for s' t'
  proof -
    from collides_checkCollision [OF c]
    have "handlePlacement (contributionGrid s') (placedTetrominos s') (type_t t') (rotation t')
             dropGridX dropGridY (Some d) now = None"
      by (simp add: handlePlacement_cells)
    with f show ?thesis by (rule 4)
  qed
  have 5: "dropMove s d dropGridX dropGridY now = s"
    if "find (\<lambda>t. id_t t = d) (placedTetrominos s) = None"
    using that by (simp add: dropMove_def)
  have 6: "handleRotate g ?rs pid = ?rs"
    if f: "findIndex (\<lambda>t. id_t t = pid) ?rs = Some i"
      and c: "\<forall>offset \<in> set [(0, 0), (- 1, 0), (1, 0), (- 2, 0), (2, 0)].
               collides (absolutePositions (kicked g (?rs ! i) offset)) pid ?rs"
  proof -
    from c have "find (\<lambda>offset. \<not> collides (absolutePositions (kicked g (?rs ! i) offset)) pid ?rs)
            [(0, 0), (- 1, 0), (1, 0), (- 2, 0), (2, 0)] = None"
      by (simp add: find_None_iff)
    with handleRotate_find [OF f reachable_piece [OF f], of g] show ?thesis
      by (simp only: option.case)
  qed
  have 7: "handleDelete ps pid = ps \<and> handleRotate g ps pid = ps" if "pid \<notin> set (map id_t ps)"
  proof -
    from that have a: "\<forall>t \<in> set ps. id_t t \<noteq> pid" by auto
    then have "findIndex (\<lambda>t. id_t t = pid) ps = None" by (simp add: findIndex_None)
    with a show ?thesis by (simp add: handleDelete_def handleRotate_def)
  qed
  have 8: "dropMove (run ops) d dropGridX dropGridY now = run ops"
    if fr: "fresh_clock initial_deck ops" and f: "findIndex (\<lambda>t. id_t t = d) ?rs = Some i"
      and o: "overlapsOther (dropCells (type_t (?rs ! i)) (rotation (?rs ! i)) dropGridX dropGridY)
                i ?rs"
  proof -
    from o have "collides (dropCells (type_t (?rs ! i)) (rotation (?rs ! i)) dropGridX dropGridY)
                   d ?rs"
      unfolding reachable_collides [OF fr f] .
    with find_findIndex [OF f] show ?thesis by (rule 3)
  qed
  have 9: "handleRotate g ?rs pid = ?rs"
    if fr: "fresh_clock initial_deck ops" and f: "findIndex (\<lambda>t. id_t t = pid) ?rs = Some i"
      and o: "\<forall>offset \<in> set [(0, 0), (- 1, 0), (1, 0), (- 2, 0), (2, 0)].
               overlapsOther (absolutePositions (kicked g (?rs ! i) offset)) i ?rs"
  proof -
    from o have "\<forall>offset \<in> set [(0, 0), (- 1, 0), (1, 0), (- 2, 0), (2, 0)].
               collides (absolutePositions (kicked g (?rs ! i) offset)) pid ?rs"
      unfolding reachable_collides [OF fr f] .
    with f show ?thesis by (rule 6)
  qed
  from 1 2 3 [of s t] 4 [of s t] 5 6 7 8 9 show ?thesis by blast
qed

theorem failed_operations_keep_collection_witness:
  "fresh_clock initial_deck blocked_run
   \<and> dropNew (run blocked_run) TT 1 0 1003 = run blocked_run
   \<and> dropNew (run blocked_run) TO 0 0 1003 = run blocked_run
   \<and> dropMove (run blocked_run) 1002 0 0 1003 = run blocked_run
   \<and> dropMove (run blocked_run) 1002 1 2 1003 = run blocked_run
   \<and> dropMove (run blocked_run) 1001 1 0 1003 = run blocked_run
   \<and> dropMove (run blocked_run) 7 0 0 1003 = run blocked_run
   \<and> handleRotate [] (placedTetrominos (run blocked_run)) 1000 = placedTetrominos (run blocked_run)
   \<and> handleRotate (transformContributionsToGrid sample_contributions)
         (placedTetrominos (run blocked_run)) 1000 = placedTetrominos (run blocked_run)
   \<and> handleDelete (placedTetrominos (run blocked_run)) 7 = placedTetrominos (run blocked_run)"
proof -
  let ?s = "run blocked_run"
  let ?ps = "placedTetrominos ?s"
  let ?g = "transformContributionsToGrid sample_contributions"
  have fr: "fresh_clock initial_deck blocked_run" by code_simp
  have p: "\<exists>q \<in> set ?ps. set (dropCells TT 0 1 0) \<inter> set (absolutePositions q) \<noteq> {}"
    by code_simp
  have p2: "handlePlacement (contributionGrid ?s) ?ps TO 0 0 0 None 1003 = None" by code_simp
  have m1: "findIndex (\<lambda>t. id_t t = 1002) ?ps = Some 2" by code_simp
  have m2: "overlapsOther (dropCells (type_t (?ps ! 2)) (rotation (?ps ! 2)) 0 0) 2 ?ps"
    by code_simp
  have m3: "find (\<lambda>t. id_t t = 1002) ?ps = Some (?ps ! 2)" by code_simp
  have m4: "collides (dropCells (type_t (?ps ! 2)) (rotation (?ps ! 2)) 1 2) 1002 ?ps"
    by code_simp
  have m5: "find (\<lambda>t. id_t t = 1001) ?ps = Some (?ps ! 1)" by code_simp
  have m6: "handlePlacement (contributionGrid ?s) ?ps (type_t (?ps ! 1)) (rotation (?ps ! 1))
              1 0 (Some 1001) 1003 = None"
    by code_simp
  have m7: "find (\<lambda>t. id_t t = 7) ?ps = None" by code_simp
  have r1: "findIndex (\<lambda>t. id_t t = 1000) ?ps = Some 0" by code_simp
  have r3: "\<forall>offset \<in> set [(0, 0), (- 1, 0), (1, 0), (- 2, 0), (2, 0)].
               overlapsOther (absolutePositions (kicked [] (?ps ! 0) offset)) 0 ?ps"
    by code_simp
  have r4: "\<forall>offset \<in> set [(0, 0), (- 1, 0), (1, 0), (- 2, 0), (2, 0)].
               collides (absolutePositions (kicked ?g (?ps ! 0) offset)) 1000 ?ps"
    by code_simp
  have d: "7 \<notin> set (map id_t ?ps)" by code_simp
  from failed_operations_keep_collection [where s = ?s and ty = TT and dropGridX = 1
      and dropGridY = 0 and now = 1003] p
  have 1: "dropNew ?s TT 1 0 1003 = ?s" by blast
  from failed_operations_keep_collection [where s = ?s and ty = TO and dropGridX = 0
      and dropGridY = 0 and now = 1003] p2
  have 2: "dropNew ?s TO 0 0 1003 = ?s" by blast
  from failed_operations_keep_collection [where ops = blocked_run and d = 1002 and i = 2
      and dropGridX = 0 and dropGridY = 0 and now = 1003] fr m1 m2
  have 3: "dropMove ?s 1002 0 0 1003 = ?s" by blast
  from failed_operations_keep_collection [where s = ?s and d = 1002 and t = "?ps ! 2"
      and dropGridX = 1 and dropGridY = 2 and now = 1003] m3 m4
  have 4: "dropMove ?s 1002 1 2 1003 = ?s" by blast
  from failed_operations_keep_collection [where s = ?s and d = 1001 and t = "?ps ! 1"
      and dropGridX = 1 and dropGridY = 0 and now = 1003] m5 m6
  have 5: "dropMove ?s 1001 1 0 1003 = ?s" by blast
  from failed_operations_keep_collection [where s = ?s and d = 7
      and dropGridX = 0 and dropGridY = 0 and now = 1003] m7
  have 6: "dropMove ?s 7 0 0 1003 = ?s" by blast
  from failed_operations_keep_collection [where ops = blocked_run and pid = 1000 and i = 0
      and g = "[]"] fr r1 r3
  have 7: "handleRotate [] ?ps 1000 = ?ps" by blast
  from failed_operations_keep_collection [where ops = blocked_run and pid = 1000 and i = 0
      and g = ?g] r1 r4
  have 8: "handleRotate ?g ?ps 1000 = ?ps" by blast
  from failed_operations_keep_collection [where ps = ?ps and pid = 7] d
  have 9: "handleDelete ?ps 7 = ?ps" by blast
  from fr 1 2 3 4 5 6 7 8 9 show ?thesis by blast
qed

text \<open>
  After two drops at the clock value 5 an I piece and an O piece share the id 5. A move of
  the id 5 to the base position \<open>(7, 4)\<close> would put the I piece on the cells \<open>(6, 4)\<close> and
  \<open>(7, 4)\<close> of the O piece; it is accepted, and both entries become the moved I piece.
\<close>

theorem move_shared_id_counterexample:
  "map type_t (placedTetrominos (run shared_id_move_run)) = [TI, TO]
   \<and> (6, 4) \<in> set (dropCells TI 0 7 4)
   \<and> (6, 4) \<in> set (absolutePositions (placedTetrominos (run shared_id_move_run) ! 1))
   \<and> map type_t (placedTetrominos (dropMove (run shared_id_move_run) 5 7 4 9)) = [TI, TI]
   \<and> map absolutePositions (placedTetrominos (dropMove (run shared_id_move_run) 5 7 4 9))
       = [[(4, 4), (5, 4), (6, 4), (7, 4)], [(4, 4), (5, 4), (6, 4), (7, 4)]]"
  by code_simp

end
